theory Spec2Isabelle
  imports Complex_Main
begin

section \<open>Bruin Ball: the fixed-step simulation and the game logic of main-scene.js\<close>

text \<open>
  The development embeds the simulation core of \<^verbatim>\<open>main-scene.js\<close>: the class
  \<^verbatim>\<open>Body\<close>, the stepping routine \<^verbatim>\<open>Final_Project.simulate\<close>, the per-tick force
  model \<^verbatim>\<open>Baseball.update_state\<close>, and the parts of \<^verbatim>\<open>Final_Project.display\<close> that
  decide levels, score and pitches.

  JavaScript numbers are modelled as exact reals: rounding, NaN and the infinities of
  IEEE doubles are outside the model. A call of \<^verbatim>\<open>Math.random()\<close> is an explicit
  argument of the function that makes it. Sounds and camera requests, which the code
  sends to collaborators, are appended to an event log.
\<close>

subsection \<open>Vectors and matrices of the graphics framework\<close>

text \<open>
  \<^verbatim>\<open>Vec\<close> and \<^verbatim>\<open>Mat4\<close> come from the framework (\<^verbatim>\<open>resources.js\<close>), which is not
  among the sources. Points and velocities are 3-vectors, a matrix is an array of four
  rows of four numbers, as \<^verbatim>\<open>blend_rotation\<close> uses it (it maps over the rows).
\<close>

type_synonym vec3 = "real \<times> real \<times> real"
type_synonym vec4 = "real \<times> real \<times> real \<times> real"
type_synonym mat4 = "vec4 \<times> vec4 \<times> vec4 \<times> vec4"

text \<open>Modelled from the spec: \<^verbatim>\<open>Vec.plus\<close>, the component-wise sum (\<open>center += linear_velocity * dt\<close>).\<close>
fun Vec_plus :: "vec3 \<Rightarrow> vec3 \<Rightarrow> vec3" where
  "Vec_plus (a1, a2, a3) (b1, b2, b3) = (a1 + b1, a2 + b2, a3 + b3)"

text \<open>Modelled from the spec: \<^verbatim>\<open>Vec.times\<close>, the product with a scalar.\<close>
fun Vec_times :: "vec3 \<Rightarrow> real \<Rightarrow> vec3" where
  "Vec_times (a1, a2, a3) s = (a1 * s, a2 * s, a3 * s)"

text \<open>Modelled from the spec: \<^verbatim>\<open>Vec.mix\<close>, the component-wise linear interpolation
  \<open>(1 - s) * a + s * b\<close>, on 3-vectors and on matrix rows.\<close>
fun Vec_mix :: "vec3 \<Rightarrow> vec3 \<Rightarrow> real \<Rightarrow> vec3" where
  "Vec_mix (a1, a2, a3) (b1, b2, b3) s =
     ((1 - s) * a1 + s * b1, (1 - s) * a2 + s * b2, (1 - s) * a3 + s * b3)"

fun Vec4_mix :: "vec4 \<Rightarrow> vec4 \<Rightarrow> real \<Rightarrow> vec4" where
  "Vec4_mix (a1, a2, a3, a4) (b1, b2, b3, b4) s =
     ((1 - s) * a1 + s * b1, (1 - s) * a2 + s * b2, (1 - s) * a3 + s * b3, (1 - s) * a4 + s * b4)"

text \<open>Modelled from the spec: \<^verbatim>\<open>Vec.dot\<close> and \<^verbatim>\<open>Vec.norm\<close>, the inner product and the
  Euclidean length (the squared norm is \<open>p.dot(p)\<close>).\<close>
fun Vec_dot :: "vec3 \<Rightarrow> vec3 \<Rightarrow> real" where
  "Vec_dot (a1, a2, a3) (b1, b2, b3) = a1 * b1 + a2 * b2 + a3 * b3"

definition Vec_norm :: "vec3 \<Rightarrow> real" where
  "Vec_norm v = sqrt (Vec_dot v v)"

fun Vec4_dot :: "vec4 \<Rightarrow> vec4 \<Rightarrow> real" where
  "Vec4_dot (a1, a2, a3, a4) (b1, b2, b3, b4) = a1 * b1 + a2 * b2 + a3 * b3 + a4 * b4"

text \<open>Modelled from the spec: \<^verbatim>\<open>Vec.every\<close>, the array method, on the three components.\<close>
fun Vec_every :: "(real \<Rightarrow> bool) \<Rightarrow> vec3 \<Rightarrow> bool" where
  "Vec_every P (a1, a2, a3) = (P a1 \<and> P a2 \<and> P a3)"

text \<open>Modelled from the spec: \<^verbatim>\<open>to4\<close> appends a homogeneous coordinate, \<^verbatim>\<open>to3\<close> drops it.\<close>
fun to4 :: "vec3 \<Rightarrow> real \<Rightarrow> vec4" where
  "to4 (a1, a2, a3) w = (a1, a2, a3, w)"

fun to3 :: "vec4 \<Rightarrow> vec3" where
  "to3 (a1, a2, a3, a4) = (a1, a2, a3)"

fun Mat_column :: "nat \<Rightarrow> mat4 \<Rightarrow> vec4" where
  "Mat_column k ((a1, a2, a3, a4), (b1, b2, b3, b4), (c1, c2, c3, c4), (d1, d2, d3, d4)) =
     (if k = 0 then (a1, b1, c1, d1) else if k = 1 then (a2, b2, c2, d2)
      else if k = 2 then (a3, b3, c3, d3) else (a4, b4, c4, d4))"

text \<open>Modelled from the spec: \<^verbatim>\<open>Mat.times\<close> with a vector argument, the matrix-vector
  product (\<open>inverse(a.pose) * b.pose * point\<close>).\<close>
fun Mat_times_vec :: "mat4 \<Rightarrow> vec4 \<Rightarrow> vec4" where
  "Mat_times_vec (r1, r2, r3, r4) v = (Vec4_dot r1 v, Vec4_dot r2 v, Vec4_dot r3 v, Vec4_dot r4 v)"

text \<open>Modelled from the spec: \<^verbatim>\<open>Mat.times\<close> with a matrix argument, the matrix product
  (composition of transforms).\<close>
definition Mat_row_times :: "vec4 \<Rightarrow> mat4 \<Rightarrow> vec4" where
  "Mat_row_times r b =
     (Vec4_dot r (Mat_column 0 b), Vec4_dot r (Mat_column 1 b),
      Vec4_dot r (Mat_column 2 b), Vec4_dot r (Mat_column 3 b))"

fun Mat_times :: "mat4 \<Rightarrow> mat4 \<Rightarrow> mat4" where
  "Mat_times (r1, r2, r3, r4) b =
     (Mat_row_times r1 b, Mat_row_times r2 b, Mat_row_times r3 b, Mat_row_times r4 b)"

text \<open>Modelled from the spec: \<^verbatim>\<open>Mat4.translation\<close>, \<^verbatim>\<open>Mat4.scale\<close> and
  \<^verbatim>\<open>Mat4.rotation\<close>, the homogeneous matrices of a translation, of a scaling along the
  axes, and of the rotation by an angle about an axis (the axis is normalised first).\<close>
fun Mat4_translation :: "vec3 \<Rightarrow> mat4" where
  "Mat4_translation (x, y, z) = ((1, 0, 0, x), (0, 1, 0, y), (0, 0, 1, z), (0, 0, 0, 1))"

fun Mat4_scale :: "vec3 \<Rightarrow> mat4" where
  "Mat4_scale (x, y, z) = ((x, 0, 0, 0), (0, y, 0, 0), (0, 0, z, 0), (0, 0, 0, 1))"

definition Mat4_rotation :: "real \<Rightarrow> vec3 \<Rightarrow> mat4" where
  "Mat4_rotation angle axis =
     (case Vec_times axis (1 / Vec_norm axis) of (x, y, z) \<Rightarrow>
        let c = cos angle; s = sin angle; omc = 1 - c in
        ((x * x * omc + c, x * y * omc - z * s, x * z * omc + y * s, 0),
         (x * y * omc + z * s, y * y * omc + c, y * z * omc - x * s, 0),
         (x * z * omc - y * s, y * z * omc + x * s, z * z * omc + c, 0),
         (0, 0, 0, 1)))"

subsection \<open>Body\<close>

text \<open>
  The shapes and materials a body is built with. The game tells the bat from the ball by
  comparing \<^verbatim>\<open>b.shape\<close> with \<^verbatim>\<open>this.shapes.cylinder\<close> and \<^verbatim>\<open>this.shapes.ball_4\<close>.
\<close>

datatype shape = cylinder | ball_4

datatype material = aluminum | baseball

text \<open>\<^verbatim>\<open>this.previous = { center, rotation }\<close>: the snapshot of the prior tick.\<close>

record previous_state =
  previous_center :: vec3
  previous_rotation :: mat4

text \<open>
  A \<^verbatim>\<open>Body\<close> after \<^verbatim>\<open>emplace\<close>. The field \<^verbatim>\<open>size\<close> is \<open>body_size\<close> here, and the field
  \<^verbatim>\<open>inverse\<close>, which only \<^verbatim>\<open>update_state\<close> assigns, is \<open>body_inverse\<close>: \<open>None\<close> while
  it is still undefined.
\<close>

record body =
  shape :: shape
  material :: material
  body_size :: vec3
  center :: vec3
  rotation :: mat4
  previous :: previous_state
  drawn_location :: mat4
  linear_velocity :: vec3
  angular_velocity :: real
  spin_axis :: vec3
  body_inverse :: "mat4 option"

text \<open>
  \<^verbatim>\<open>emplace(location_matrix, linear_velocity, angular_velocity, spin_axis)\<close>. The
  default of \<^verbatim>\<open>spin_axis\<close> is a random unit vector: the caller passes it.
\<close>

definition emplace :: "body \<Rightarrow> mat4 \<Rightarrow> vec3 \<Rightarrow> real \<Rightarrow> vec3 \<Rightarrow> body" where
  "emplace b location_matrix lv av axis =
     (let c = to3 (Mat_times_vec location_matrix (0, 0, 0, 1));
          r = Mat_times (Mat4_translation (Vec_times c (- 1))) location_matrix
      in b\<lparr>center := c, rotation := r,
           previous := \<lparr>previous_center = c, previous_rotation = r\<rparr>,
           drawn_location := location_matrix,
           linear_velocity := lv, angular_velocity := av, spin_axis := axis\<rparr>)"

text \<open>
  \<^verbatim>\<open>new Body(shape, material, size).emplace(...)\<close>: the constructor stores the three
  arguments only; every other field but \<^verbatim>\<open>inverse\<close> is assigned by \<open>emplace\<close>.
\<close>

definition new_Body :: "shape \<Rightarrow> material \<Rightarrow> vec3 \<Rightarrow> mat4 \<Rightarrow> vec3 \<Rightarrow> real \<Rightarrow> vec3 \<Rightarrow> body" where
  "new_Body sh m sz location_matrix lv av axis =
     emplace \<lparr>shape = sh, material = m, body_size = sz, center = (0, 0, 0),
              rotation = Mat4_scale (1, 1, 1),
              previous = \<lparr>previous_center = (0, 0, 0), previous_rotation = Mat4_scale (1, 1, 1)\<rparr>,
              drawn_location = Mat4_scale (1, 1, 1), linear_velocity = (0, 0, 0),
              angular_velocity = 0, spin_axis = (0, 0, 0), body_inverse = None\<rparr>
       location_matrix lv av axis"

text \<open>\<^verbatim>\<open>advance(time_amount)\<close>: one forward Euler step.\<close>

definition advance :: "real \<Rightarrow> body \<Rightarrow> body" where
  "advance time_amount b =
     b\<lparr>previous := \<lparr>previous_center = center b, previous_rotation = rotation b\<rparr>,
       center := Vec_plus (center b) (Vec_times (linear_velocity b) time_amount),
       rotation := Mat_times (Mat4_rotation (time_amount * angular_velocity b) (spin_axis b))
                     (rotation b)\<rparr>"

text \<open>\<^verbatim>\<open>blend_rotation(alpha)\<close>: each row of the previous rotation mixed with the same
  row of the current one.\<close>

definition blend_rotation :: "real \<Rightarrow> body \<Rightarrow> mat4" where
  "blend_rotation alpha b =
     (case (previous_rotation (previous b), rotation b) of
        ((p1, p2, p3, p4), (x1, x2, x3, x4)) \<Rightarrow>
          (Vec4_mix p1 x1 alpha, Vec4_mix p2 x2 alpha, Vec4_mix p3 x3 alpha, Vec4_mix p4 x4 alpha))"

text \<open>\<^verbatim>\<open>blend_state(alpha)\<close>: the pose that is drawn.\<close>

definition blend_state :: "real \<Rightarrow> body \<Rightarrow> body" where
  "blend_state alpha b =
     b\<lparr>drawn_location :=
         Mat_times
           (Mat_times (Mat4_translation (Vec_mix (previous_center (previous b)) (center b) alpha))
              (blend_rotation alpha b))
           (Mat4_scale (body_size b))\<rparr>"

text \<open>A run of \<^verbatim>\<open>advance\<close> calls, one per listed time amount, in order.\<close>

fun advances :: "real list \<Rightarrow> body \<Rightarrow> body" where
  "advances [] b = b"
| "advances (time_amount # rest) b = advances rest (advance time_amount b)"

text \<open>The pose composed from a center, a rotation and the size of a body.\<close>

definition pose_of :: "vec3 \<Rightarrow> mat4 \<Rightarrow> vec3 \<Rightarrow> mat4" where
  "pose_of c r sz = Mat_times (Mat_times (Mat4_translation c) r) (Mat4_scale sz)"


subsection \<open>Collider\<close>

text \<open>
  \<^verbatim>\<open>this.collider = { intersect_test, points, leeway }\<close>. The points are the vertex
  positions of \<^verbatim>\<open>Subdivision_Sphere(2)\<close>, a framework shape: they are a parameter of the
  initial state.
\<close>

record collider =
  intersect_test :: "vec3 \<Rightarrow> real \<Rightarrow> bool"
  points :: "vec3 list"
  leeway :: real

definition intersect_cube :: "vec3 \<Rightarrow> real \<Rightarrow> bool" where
  "intersect_cube p margin = Vec_every (\<lambda>v. v \<ge> - 1 - margin \<and> v \<le> 1 + margin) p"

definition intersect_sphere :: "vec3 \<Rightarrow> real \<Rightarrow> bool" where
  "intersect_sphere p margin = (Vec_dot p p < 1 + margin)"

text \<open>
  Reading \<^verbatim>\<open>this.inverse.times\<close> while \<^verbatim>\<open>inverse\<close> is undefined throws a TypeError.
\<close>

datatype error = TypeError

text \<open>
  \<^verbatim>\<open>a.check_if_colliding(b, collider)\<close>. The test \<^verbatim>\<open>this == b\<close> compares object
  identities, so the two bodies are given as references: indices into the list of bodies
  \<open>bs\<close> that holds them.
\<close>

definition check_if_colliding :: "body list \<Rightarrow> nat \<Rightarrow> nat \<Rightarrow> collider \<Rightarrow> error + bool" where
  "check_if_colliding bs a b col =
     (if a = b then Inr False
      else case body_inverse (bs ! a) of
             None \<Rightarrow> Inl TypeError
           | Some a_inv \<Rightarrow>
               let T = Mat_times a_inv (drawn_location (bs ! b))
               in Inr (list_ex (\<lambda>p. intersect_test col (to3 (Mat_times_vec T (to4 p 1))) (leeway col))
                        (points col)))"

subsection \<open>The state of the scene\<close>

datatype game_state = not_started | started | game_over | game_won

text \<open>
  \<^verbatim>\<open>this.game_level = { one: "1", two: "2", three: "3", four: "4" }\<close> holds strings, the
  restart button assigns the number \<^verbatim>\<open>1\<close>, and every comparison of the level is a
  loose \<^verbatim>\<open>==\<close>. A level is therefore a string or a number, and \<open>loose_eq\<close> converts a
  string of decimal digits to its number when the two kinds meet. Other strings (signs,
  blanks, fractions), which the program never stores, convert to no number here.
\<close>

datatype js_value = Str string | Num int

fun digits_value :: "string \<Rightarrow> int \<Rightarrow> int option" where
  "digits_value [] n = Some n"
| "digits_value (c # cs) n =
     (if c \<in> set ''0123456789'' then digits_value cs (10 * n + (int (of_char c) - 48)) else None)"

definition to_number :: "string \<Rightarrow> int option" where
  "to_number s = digits_value s 0"

fun loose_eq :: "js_value \<Rightarrow> js_value \<Rightarrow> bool" where
  "loose_eq (Str a) (Str b) = (a = b)"
| "loose_eq (Num a) (Num b) = (a = b)"
| "loose_eq (Str a) (Num b) = (to_number a = Some b)"
| "loose_eq (Num a) (Str b) = (to_number b = Some a)"

definition game_level_one :: js_value where "game_level_one = Str ''1''"
definition game_level_two :: js_value where "game_level_two = Str ''2''"
definition game_level_three :: js_value where "game_level_three = Str ''3''"
definition game_level_four :: js_value where "game_level_four = Str ''4''"

text \<open>What the scene sends to the audio and camera collaborators, in order.\<close>

datatype event = play_crack | play_homerun | play_no_homerun | camera_decrease

text \<open>
  The fields of \<^verbatim>\<open>Final_Project\<close> that the simulation and the game logic read or
  write. \<open>t\<close> is \<^verbatim>\<open>this.t\<close>, the simulated time; the title balls, the shapes, the
  materials and the swing animation are scenery and are left out.
\<close>

record game =
  time_accumulator :: real
  time_scale :: real
  t :: real
  dt :: real
  bodies :: "body list"
  steps_taken :: nat
  collider :: collider
  current_game_state :: game_state
  current_game_level :: js_value
  game_score :: int
  game_target :: int
  pitch_count :: int
  ball_hit :: bool
  ball_bounced :: bool
  pitch_time :: bool
  pitch_timer :: real
  events :: "event list"

text \<open>The constructor of \<^verbatim>\<open>Final_Project\<close>.\<close>

definition initial :: "vec3 list \<Rightarrow> game" where
  "initial sphere_points =
     \<lparr>time_accumulator = 0, time_scale = 1, t = 0, dt = 1 / 20, bodies = [], steps_taken = 0,
      collider = \<lparr>intersect_test = intersect_sphere, points = sphere_points, leeway = 0.7\<rparr>,
      current_game_state = not_started, current_game_level = game_level_one,
      game_score = 0, game_target = 3, pitch_count = 10,
      ball_hit = False, ball_bounced = False, pitch_time = False, pitch_timer = 0,
      events = []\<rparr>"

subsection \<open>Baseball.update\_state\<close>

text \<open>
  The collision loops run over the list of bodies twice nested. A detected collision
  plays the crack, sets \<^verbatim>\<open>ball_hit\<close> and stops the spin of \<^verbatim>\<open>b\<close>. The inverse of
  \<^verbatim>\<open>a\<close> is cached right before its inner loop, so \<open>check_if_colliding\<close> never throws
  here; \<^verbatim>\<open>Mat4.inverse\<close>, a framework function, is the parameter \<open>Mat4_inverse\<close>.
\<close>

definition on_collision :: "nat \<Rightarrow> game \<Rightarrow> game" where
  "on_collision b g =
     g\<lparr>events := events g @ [play_crack], ball_hit := True,
       bodies := (bodies g)[b := (bodies g ! b)\<lparr>angular_velocity := 0\<rparr>]\<rparr>"

fun inner_loop :: "nat \<Rightarrow> nat list \<Rightarrow> game \<Rightarrow> game" where
  "inner_loop a [] g = g"
| "inner_loop a (b # rest) g =
     inner_loop a rest
       (if check_if_colliding (bodies g) a b (collider g) = Inr True then on_collision b g else g)"

fun outer_loop :: "(mat4 \<Rightarrow> mat4) \<Rightarrow> nat list \<Rightarrow> game \<Rightarrow> game" where
  "outer_loop Mat4_inverse [] g = g"
| "outer_loop Mat4_inverse (a # rest) g =
     (let body_a = (bodies g ! a)\<lparr>body_inverse := Some (Mat4_inverse (drawn_location (bodies g ! a))),
                                  material := baseball\<rparr>;
          g1 = g\<lparr>bodies := (bodies g)[a := body_a]\<rparr>
      in outer_loop Mat4_inverse rest (inner_loop a [0..<length (bodies g1)] g1))"

definition detect_collisions :: "(mat4 \<Rightarrow> mat4) \<Rightarrow> game \<Rightarrow> game" where
  "detect_collisions Mat4_inverse g =
     (if \<not> ball_hit g then outer_loop Mat4_inverse [0..<length (bodies g)] g else g)"

text \<open>
  The force model of the hit ball, block by block. \<open>launch\<close> is the block under
  \<^verbatim>\<open>if (ball.linear_velocity[2] > 0)\<close>; \<open>r\<close> is the value of \<^verbatim>\<open>Math.random()\<close> there.
\<close>

definition launch :: "real \<Rightarrow> body \<Rightarrow> body" where
  "launch r ball =
     (case (linear_velocity ball, center ball) of
        ((vx, vy, vz), (x, y, z)) \<Rightarrow>
          if vz > 0
          then ball\<lparr>linear_velocity :=
                 ((z + 1) * 5, vy + (of_int \<lfloor>r * 21\<rfloor> + 10), vz * - min 3.6 (\<bar>z\<bar> * 3))\<rparr>
          else ball)"

definition gravity :: "real \<Rightarrow> body \<Rightarrow> body" where
  "gravity d ball =
     (case linear_velocity ball of (vx, vy, vz) \<Rightarrow>
        ball\<lparr>linear_velocity := (vx, vy + d * - 9.8, vz)\<rparr>)"

text \<open>The test of line 2534, on the \<open>x\<close> and \<open>z\<close> of the ball's center.\<close>

definition is_home_run :: "real \<Rightarrow> real \<Rightarrow> bool" where
  "is_home_run x z = (\<bar>x\<bar> < 150 \<and> \<bar>z\<bar> > 160 - \<bar>x\<bar>)"

text \<open>The test of line 2529: the ball is below the floor and still falling.\<close>

definition falls_through_floor :: "body \<Rightarrow> bool" where
  "falls_through_floor ball =
     (case (linear_velocity ball, center ball) of
        ((vx, vy, vz), (x, y, z)) \<Rightarrow> y < - 9.7 \<and> vy < 0)"

definition judge :: "game \<Rightarrow> game" where
  "judge g =
     (if \<not> ball_bounced g
      then (case center (bodies g ! 1) of (x, y, z) \<Rightarrow>
              if is_home_run x z
              then g\<lparr>ball_bounced := True, game_score := game_score g + 1,
                     events := events g @ [play_homerun]\<rparr>
              else g\<lparr>ball_bounced := True, events := events g @ [play_no_homerun]\<rparr>)
      else g)"

definition dampen :: "body \<Rightarrow> body" where
  "dampen ball =
     (case linear_velocity ball of (vx, vy, vz) \<Rightarrow>
        ball\<lparr>linear_velocity := (vx * 0.6, vy * - 0.6, vz * 0.6),
             angular_velocity := angular_velocity ball * 0.5\<rparr>)"

definition bounce :: "game \<Rightarrow> game" where
  "bounce g =
     (if falls_through_floor (bodies g ! 1)
      then (let g1 = judge g in g1\<lparr>bodies := (bodies g1)[1 := dampen (bodies g1 ! 1)]\<rparr>)
      else g)"

text \<open>Line 2549: a slow ball below the floor level loses its vertical velocity.\<close>

definition come_to_rest :: "body \<Rightarrow> body" where
  "come_to_rest ball =
     (case (linear_velocity ball, center ball) of
        ((vx, vy, vz), (x, y, z)) \<Rightarrow>
          if Vec_norm (vx, vy, vz) < 2 \<and> y < - 9.7
          then ball\<lparr>linear_velocity := (vx, 0, vz)\<rparr> else ball)"

text \<open>The state when the bounce test of line 2529 is reached, and the whole block
  under the first \<^verbatim>\<open>if (this.ball_hit)\<close>.\<close>

definition before_bounce :: "real \<Rightarrow> real \<Rightarrow> game \<Rightarrow> game" where
  "before_bounce r d g = g\<lparr>bodies := (bodies g)[1 := gravity d (launch r (bodies g ! 1))]\<rparr>"

definition post_hit :: "real \<Rightarrow> real \<Rightarrow> game \<Rightarrow> game" where
  "post_hit r d g =
     (let g2 = bounce (before_bounce r d g)
      in g2\<lparr>bodies := (bodies g2)[1 := come_to_rest (bodies g2 ! 1)]\<rparr>)"

text \<open>The two filters of lines 2553 to 2565.\<close>

definition retire :: "game \<Rightarrow> game" where
  "retire g =
     (if ball_hit g
      then (let kept = filter (\<lambda>b. Vec_norm (center b) < 300) (bodies g)
            in g\<lparr>pitch_time := (pitch_time g \<or> list_ex (\<lambda>b. Vec_norm (center b) < 300) (bodies g)),
                 bodies := kept,
                 events := events g @
                   map (\<lambda>b. camera_decrease) (filter (\<lambda>b. Vec_norm (center b) < 90) kept)\<rparr>)
      else g\<lparr>bodies := filter (\<lambda>b. Vec_norm (center b) < 40) (bodies g)\<rparr>)"

definition clear_flags :: "game \<Rightarrow> game" where
  "clear_flags g = g\<lparr>ball_hit := False, ball_bounced := False\<rparr>"

text \<open>The test of line 2571 on the velocity of the ball.\<close>

definition stopped :: "body \<Rightarrow> bool" where
  "stopped ball = Vec_every (\<lambda>v. \<bar>v\<bar> < 0.5) (linear_velocity ball)"

text \<open>
  \<^verbatim>\<open>update_state(dt)\<close>. \<^verbatim>\<open>ball\<close> is a reference to the second body, taken before the
  filters replace the list: the last test reads that object, and \<^verbatim>\<open>pop\<close> removes the
  last body of the filtered list.
\<close>

definition update_state :: "(mat4 \<Rightarrow> mat4) \<Rightarrow> real \<Rightarrow> real \<Rightarrow> game \<Rightarrow> game" where
  "update_state Mat4_inverse r d g =
     (let g1 = detect_collisions Mat4_inverse g in
      if length (bodies g1) > 1
      then (let g2 = (if ball_hit g1 then post_hit r d g1 else g1);
                ball = bodies g2 ! 1;
                g3 = retire g2
            in if length (bodies g3) < 2 then clear_flags g3
               else if stopped ball then (clear_flags g3)\<lparr>bodies := butlast (bodies g3)\<rparr>
               else g3)
      else g1)"


subsection \<open>Final\_Project.simulate\<close>

text \<open>Lines 375 to 377: the bookkeeping that ends an iteration of the stepping loop.\<close>

definition clock_tick :: "real \<Rightarrow> game \<Rightarrow> game" where
  "clock_tick frame_time g =
     g\<lparr>t := t g + sgn frame_time * dt g,
       time_accumulator := time_accumulator g - sgn frame_time * dt g,
       steps_taken := steps_taken g + 1\<rparr>"

text \<open>
  Lines 371 and 372: \<^verbatim>\<open>update_state(this.dt)\<close>, then \<^verbatim>\<open>advance(this.dt)\<close> on every
  body. \<open>rnd k\<close> is the value \<^verbatim>\<open>Math.random()\<close> has for the tick that starts with
  \<^verbatim>\<open>steps_taken = k\<close>.
\<close>

definition step_bodies :: "(mat4 \<Rightarrow> mat4) \<Rightarrow> (nat \<Rightarrow> real) \<Rightarrow> game \<Rightarrow> game" where
  "step_bodies Mat4_inverse rnd g =
     (let g1 = update_state Mat4_inverse (rnd (steps_taken g)) (dt g) g
      in g1\<lparr>bodies := map (advance (dt g1)) (bodies g1)\<rparr>)"

text \<open>
  The loop \<^verbatim>\<open>while (Math.abs(this.time_accumulator) >= this.dt)\<close>. It may run forever
  (a frame time of zero with a full accumulator changes nothing), so it is a partial
  function: \<open>None\<close> means that it does not return. \<open>work\<close> is what an iteration does
  before the bookkeeping.
\<close>

partial_function (option) stepping :: "(game \<Rightarrow> game) \<Rightarrow> real \<Rightarrow> game \<Rightarrow> game option" where
  "stepping work frame_time g =
     (if \<bar>time_accumulator g\<bar> \<ge> dt g
      then stepping work frame_time (clock_tick frame_time (work g))
      else Some g)"

definition simulate :: "(mat4 \<Rightarrow> mat4) \<Rightarrow> (nat \<Rightarrow> real) \<Rightarrow> real \<Rightarrow> game \<Rightarrow> game option" where
  "simulate Mat4_inverse rnd frame_time0 g =
     (let frame_time = time_scale g * frame_time0;
          g1 = g\<lparr>time_accumulator := time_accumulator g + min frame_time 0.1\<rparr>
      in case stepping (step_bodies Mat4_inverse rnd) frame_time g1 of
           None \<Rightarrow> None
         | Some g2 \<Rightarrow>
             Some (g2\<lparr>bodies := map (blend_state (time_accumulator g2 / dt g2)) (bodies g2)\<rparr>))"

text \<open>A run of \<^verbatim>\<open>simulate\<close> calls, one per listed frame time.\<close>

fun simulates :: "(mat4 \<Rightarrow> mat4) \<Rightarrow> (nat \<Rightarrow> real) \<Rightarrow> real list \<Rightarrow> game \<Rightarrow> game option" where
  "simulates Mat4_inverse rnd [] g = Some g"
| "simulates Mat4_inverse rnd (frame_time # rest) g =
     (case simulate Mat4_inverse rnd frame_time g of
        None \<Rightarrow> None
      | Some g1 \<Rightarrow> simulates Mat4_inverse rnd rest g1)"

subsection \<open>The controls\<close>

text \<open>The buttons \<^verbatim>\<open>Start Game\<close>, \<^verbatim>\<open>Restart Game\<close> and \<^verbatim>\<open>Home Run\<close>. The other
  buttons move the batter, swing the bat and switch the light: they reach the model
  through the pose of the bat, an input of each frame.\<close>

definition start_game :: "game \<Rightarrow> game" where
  "start_game g = g\<lparr>current_game_state := started\<rparr>"

definition restart_game :: "game \<Rightarrow> game" where
  "restart_game g =
     g\<lparr>current_game_state := started, current_game_level := Num 1, game_target := 3,
       game_score := 0, pitch_count := 10\<rparr>"

definition home_run_key :: "game \<Rightarrow> game" where
  "home_run_key g = g\<lparr>ball_hit := True\<rparr>"

subsection \<open>Final\_Project.display: levels, pitches and the call of simulate\<close>

text \<open>
  What a frame reads from outside: the clock of the animation (milliseconds), the pose of
  the bat and of the pitcher's right arm, which the scenery computes, and the random
  numbers drawn in the frame: two for the pitch, the default spin axes of \<^verbatim>\<open>emplace\<close>,
  and one per tick for \<^verbatim>\<open>update_state\<close>.
\<close>

record frame =
  animation_time :: real
  animation_delta_time :: real
  bat :: mat4
  pitcher_right_arm :: mat4
  random_speed :: real
  random_xy :: real
  random_axis :: "nat \<Rightarrow> vec3"
  random_tick :: "nat \<Rightarrow> real"

text \<open>
  The title balls of the start screen and of the win screen are advanced by a copy of the
  stepping loop (lines 735 to 771 and 1168 to 1204) on the same clock. The balls
  are scenery; the clock is modelled.
\<close>

definition title_balls_loop :: "real \<Rightarrow> game \<Rightarrow> game option" where
  "title_balls_loop delta g =
     (let frame_time = time_scale g * delta
      in stepping (\<lambda>g. g) frame_time
           (g\<lparr>time_accumulator := time_accumulator g + min frame_time 0.1\<rparr>))"

definition title_screens :: "real \<Rightarrow> game \<Rightarrow> game option" where
  "title_screens delta g =
     (case (if current_game_state g = not_started then title_balls_loop delta g else Some g) of
        None \<Rightarrow> None
      | Some g1 \<Rightarrow> if current_game_state g1 = game_won then title_balls_loop delta g1 else Some g1)"

text \<open>Lines 1221 to 1284: eight tests in a row, each on the state the previous one left.\<close>

definition lose_check :: "js_value \<Rightarrow> int \<Rightarrow> game \<Rightarrow> game" where
  "lose_check level n g =
     (if loose_eq (current_game_level g) level \<and> game_score g < n \<and> pitch_count g = - 1
      then g\<lparr>current_game_state := game_over\<rparr> else g)"

definition next_level_check :: "js_value \<Rightarrow> int \<Rightarrow> int \<Rightarrow> js_value \<Rightarrow> game \<Rightarrow> game" where
  "next_level_check level n pitches next g =
     (if loose_eq (current_game_level g) level \<and> game_score g \<ge> n \<and> pitch_count g = pitches
      then g\<lparr>current_game_level := next, game_score := 0, pitch_count := 10\<rparr> else g)"

definition win_check :: "js_value \<Rightarrow> int \<Rightarrow> game \<Rightarrow> game" where
  "win_check level n g =
     (if loose_eq (current_game_level g) level \<and> game_score g \<ge> n \<and> pitch_count g = - 1
      then g\<lparr>current_game_state := game_won\<rparr> else g)"

definition level_progress :: "game \<Rightarrow> game" where
  "level_progress g =
     win_check game_level_four 10
       (next_level_check game_level_three 7 0 game_level_four
          (win_check game_level_two 5
             (next_level_check game_level_one 3 (- 1) game_level_two
                (lose_check game_level_four 10
                   (lose_check game_level_three 7
                      (lose_check game_level_two 5
                         (lose_check game_level_one 3 g)))))))"

text \<open>Lines 1358 to 1361.\<close>

definition target_check :: "int \<Rightarrow> int \<Rightarrow> game \<Rightarrow> game" where
  "target_check level n g =
     (if loose_eq (current_game_level g) (Num level) then g\<lparr>game_target := n\<rparr> else g)"

definition target_update :: "game \<Rightarrow> game" where
  "target_update g = target_check 5 13 (target_check 4 10 (target_check 3 7 (target_check 2 5 g)))"

text \<open>\<^verbatim>\<open>getRandomInt(min, max)\<close>; \<open>r\<close> is the value of \<^verbatim>\<open>Math.random()\<close>.\<close>

definition getRandomInt :: "real \<Rightarrow> real \<Rightarrow> real \<Rightarrow> int" where
  "getRandomInt r mn mx =
     (let mn' = \<lceil>mn\<rceil>; mx' = \<lfloor>mx\<rfloor> in \<lfloor>r * of_int (mx' - mn')\<rfloor> + mn')"

text \<open>Lines 2330 to 2344: the bat is the first body.\<close>

definition bat_location :: "frame \<Rightarrow> mat4" where
  "bat_location f =
     Mat_times (Mat_times (bat f) (Mat4_translation (0, 1, 0))) (Mat4_rotation 1.5708 (1, 0, 0))"

definition push_bat :: "frame \<Rightarrow> game \<Rightarrow> game" where
  "push_bat f g =
     (if length (bodies g) < 1
      then g\<lparr>bodies := bodies g @
                [new_Body cylinder aluminum (0.08, 0.08, 0.4) (bat_location f) (0, 0, 0) 0
                   (random_axis f 0)]\<rparr>
      else g)"

text \<open>Lines 2346 to 2349; \<^verbatim>\<open>t\<close> of \<^verbatim>\<open>display\<close> is \<^verbatim>\<open>animation_time / 1000\<close>.\<close>

definition pitch_timing :: "frame \<Rightarrow> game \<Rightarrow> game" where
  "pitch_timing f g =
     (if pitch_time g \<and> length (bodies g) < 2
      then g\<lparr>pitch_timer := animation_time f / 1000, pitch_time := False\<rparr> else g)"

text \<open>Lines 2350 to 2371: the pitch.\<close>

definition pitch_due :: "frame \<Rightarrow> game \<Rightarrow> bool" where
  "pitch_due f g =
     (animation_time f / 1000 > pitch_timer g + 2 \<and> length (bodies g) < 2 \<and>
      pitch_count g > - 1 \<and> current_game_state g = started)"

definition new_ball :: "frame \<Rightarrow> body" where
  "new_ball f =
     (let speed = getRandomInt (random_speed f) 10 18;
          xy = of_int (getRandomInt (random_xy f) (- 2) 3) * 0.3
      in new_Body ball_4 baseball (0.5, 0.5, 1)
           (Mat_times (pitcher_right_arm f) (Mat4_translation (- 3, - 1, - 7)))
           (0.4 + xy, 0, of_int speed) 0 (random_axis f 1))"

definition throw_pitch :: "frame \<Rightarrow> game \<Rightarrow> game" where
  "throw_pitch f g =
     (if pitch_due f g
      then g\<lparr>pitch_time := False, pitch_count := pitch_count g - 1,
             bodies := bodies g @ [new_ball f]\<rparr>
      else g)"

text \<open>Lines 2373 to 2383: every cylinder is placed again where the bat is drawn.\<close>

definition track_bat :: "frame \<Rightarrow> game \<Rightarrow> game" where
  "track_bat f g =
     g\<lparr>bodies :=
         map (\<lambda>(i, b). if shape b = cylinder
                        then emplace b (bat_location f) (0, 0, 0) 0 (random_axis f (i + 2)) else b)
           (enumerate 0 (bodies g))\<rparr>"

text \<open>
  The frame, without the drawing: the title screens, the level progression, the target,
  the bodies, and \<^verbatim>\<open>this.simulate(program_state.animation_delta_time)\<close>.
\<close>

definition display :: "(mat4 \<Rightarrow> mat4) \<Rightarrow> frame \<Rightarrow> game \<Rightarrow> game option" where
  "display Mat4_inverse f g =
     (case title_screens (animation_delta_time f) g of
        None \<Rightarrow> None
      | Some g1 \<Rightarrow>
          simulate Mat4_inverse (random_tick f) (animation_delta_time f)
            (track_bat f (throw_pitch f (pitch_timing f (push_bat f
               (target_update (level_progress g1)))))))"

text \<open>
  The states of a run: the constructor's, then any sequence of button presses and of
  frames whose time since the previous frame is not negative.
\<close>

inductive reachable :: "(mat4 \<Rightarrow> mat4) \<Rightarrow> vec3 list \<Rightarrow> game \<Rightarrow> bool"
  for Mat4_inverse :: "mat4 \<Rightarrow> mat4" and sphere_points :: "vec3 list" where
  constructed: "reachable Mat4_inverse sphere_points (initial sphere_points)"
| start_pressed: "reachable Mat4_inverse sphere_points g \<Longrightarrow>
     reachable Mat4_inverse sphere_points (start_game g)"
| restart_pressed: "reachable Mat4_inverse sphere_points g \<Longrightarrow>
     reachable Mat4_inverse sphere_points (restart_game g)"
| home_run_pressed: "reachable Mat4_inverse sphere_points g \<Longrightarrow>
     reachable Mat4_inverse sphere_points (home_run_key g)"
| frame_drawn: "reachable Mat4_inverse sphere_points g \<Longrightarrow> 0 \<le> animation_delta_time f \<Longrightarrow>
     display Mat4_inverse f g = Some g' \<Longrightarrow> reachable Mat4_inverse sphere_points g'"


subsection \<open>Vocabulary of the proofs\<close>

text \<open>
  \<open>same_rules g g'\<close>: the configuration of the clock, the collider and the progress of the
  game are the same in both states. \<open>same_clock g g'\<close>: so are the three counters of the
  clock.
\<close>

definition same_rules :: "game \<Rightarrow> game \<Rightarrow> bool" where
  "same_rules g g' =
     (time_scale g' = time_scale g \<and> dt g' = dt g \<and> collider g' = collider g \<and>
      current_game_state g' = current_game_state g \<and>
      current_game_level g' = current_game_level g \<and> game_target g' = game_target g \<and>
      pitch_count g' = pitch_count g \<and> pitch_timer g' = pitch_timer g)"

definition same_clock :: "game \<Rightarrow> game \<Rightarrow> bool" where
  "same_clock g g' =
     (time_accumulator g' = time_accumulator g \<and> t g' = t g \<and> steps_taken g' = steps_taken g)"


text \<open>
  \<open>clock_ok g\<close>: the accumulator holds less than one step, and the step and the time
  scale are the constructor's.
\<close>

definition clock_ok :: "game \<Rightarrow> bool" where
  "clock_ok g =
     (0 \<le> time_accumulator g \<and> time_accumulator g < dt g \<and> dt g = 1 / 20 \<and> time_scale g = 1)"


text \<open>
  \<open>flight_ok g\<close>: the flag \<open>ball_bounced\<close> is set only while a hit ball is in play.
\<close>

definition flight_ok :: "game \<Rightarrow> bool" where
  "flight_ok g = (ball_bounced g \<longrightarrow> ball_hit g \<and> 1 < length (bodies g))"


subsection \<open>Example bodies and states\<close>

text \<open>A ball that leaves the pitcher at twenty units from the origin, and a bat at the origin.\<close>

definition example_ball :: body where
  "example_ball =
     new_Body ball_4 baseball (0.5, 0.5, 1) (Mat4_translation (0, 0, - 20)) (0.4, 0, 10) 0 (0, 0, 1)"

definition example_bat :: body where
  "example_bat =
     new_Body cylinder aluminum (0.08, 0.08, 0.4) (Mat4_scale (1, 1, 1)) (0, 0, 0) 0 (0, 0, 1)"

text \<open>A hit ball that comes down beyond the fence, and a hit ball that rolls out slowly.\<close>

definition example_flight :: game where
  "example_flight =
     (initial [])\<lparr>bodies := [example_bat,
                    example_ball\<lparr>center := (0, - 10, - 161), linear_velocity := (0, - 5, - 3)\<rparr>],
                  ball_hit := True, current_game_state := started\<rparr>"

definition example_rolling :: game where
  "example_rolling =
     (initial [])\<lparr>bodies := [example_bat,
                    example_ball\<lparr>center := (0, - 10, - 50), linear_velocity := (0.1, - 0.2, - 0.1)\<rparr>],
                  ball_hit := True, ball_bounced := True, current_game_state := started\<rparr>"


text \<open>
  A frame drawn two seconds after the start of the animation, with the bat and the
  pitcher's arm at the origin.
\<close>

definition example_frame :: frame where
  "example_frame =
     \<lparr>animation_time = 2000, animation_delta_time = 16, bat = Mat4_scale (1, 1, 1),
      pitcher_right_arm = Mat4_scale (1, 1, 1), random_speed = 1 / 2, random_xy = 1 / 2,
      random_axis = (\<lambda>k. (0, 0, 1)), random_tick = (\<lambda>k. 0)\<rparr>"

text \<open>A state of the started game on level two with the pitches used up and five home runs.\<close>

definition example_level_two :: game where
  "example_level_two =
     (start_game (initial []))\<lparr>current_game_level := game_level_two, game_target := 5,
                                game_score := 5, pitch_count := - 1\<rparr>"

text \<open>
  \<open>level_ok g\<close>: the game is on level one with target 3 or on level two with target 5.
\<close>

definition level_ok :: "game \<Rightarrow> bool" where
  "level_ok g =
     ((current_game_level g = Str ''1'' \<or> current_game_level g = Num 1) \<and> game_target g = 3 \<or>
      current_game_level g = Str ''2'' \<and> game_target g = 5)"

subsection \<open>A run of frames with one pitch\<close>

text \<open>
  \<open>play\<close> draws the listed frames in order; it returns nothing when a frame does not
  return. \<open>frame_at a d\<close> is the frame drawn at \<open>a\<close> milliseconds of the animation,
  \<open>d\<close> milliseconds after the previous one, with the bat and the pitcher's arm at the
  origin; its random numbers give the pitch the speed 17 and no lateral draw, and the
  launch of a hit ball the boost 30. \<open>frames_from a d n\<close> are \<open>n\<close> such frames, the first
  at \<open>a\<close>. \<open>example_pressed\<close> is the state after the start button and the home run key:
  the next ball counts as hit as soon as it is thrown.
\<close>

fun play :: "(mat4 \<Rightarrow> mat4) \<Rightarrow> frame list \<Rightarrow> game \<Rightarrow> game option" where
  "play Mat4_inverse [] g = Some g"
| "play Mat4_inverse (f # fs) g =
     (case display Mat4_inverse f g of None \<Rightarrow> None | Some g1 \<Rightarrow> play Mat4_inverse fs g1)"

definition frame_at :: "real \<Rightarrow> real \<Rightarrow> frame" where
  "frame_at a d =
     \<lparr>animation_time = a, animation_delta_time = d, bat = Mat4_scale (1, 1, 1),
      pitcher_right_arm = Mat4_scale (1, 1, 1), random_speed = 9 / 10, random_xy = 1 / 2,
      random_axis = (\<lambda>k. (0, 0, 1)), random_tick = (\<lambda>k. 99 / 100)\<rparr>"

fun frames_from :: "real \<Rightarrow> real \<Rightarrow> nat \<Rightarrow> frame list" where
  "frames_from a d 0 = []"
| "frames_from a d (Suc n) = frame_at a d # frames_from (a + d) d n"

definition example_pressed :: game where
  "example_pressed = home_run_key (start_game (initial []))"

text \<open>
  The center and the velocity of a hit ball after one tick of \<open>1 / 20\<close> in which it
  neither bounces nor leaves the scene: the launch block (with the boost 30) while the
  ball still flies towards the batter, gravity, and \<open>advance\<close>. \<open>airborne\<close> is what such
  a tick needs: the ball is not below the floor, it is within 300 of the origin, and it
  is not slow after the tick's forces. \<open>out_of_range\<close>: the ball is above the floor and at
  300 or more from the origin. \<open>fly n\<close> is the ball after \<open>n\<close> frames of two ticks each,
  and \<open>sky n\<close> says that all these ticks are airborne.
\<close>

definition flight_tick :: "vec3 \<times> vec3 \<Rightarrow> vec3 \<times> vec3" where
  "flight_tick s =
     (case s of ((x, y, z), (vx, vy, vz)) \<Rightarrow>
        if vz > 0
        then ((x + (z + 1) * 5 / 20, y + (vy + 30 - 49 / 100) / 20,
               z + vz * - min 3.6 (\<bar>z\<bar> * 3) / 20),
              ((z + 1) * 5, vy + 30 - 49 / 100, vz * - min 3.6 (\<bar>z\<bar> * 3)))
        else ((x + vx / 20, y + (vy - 49 / 100) / 20, z + vz / 20), (vx, vy - 49 / 100, vz)))"

fun airborne :: "vec3 \<times> vec3 \<Rightarrow> bool" where
  "airborne ((x, y, z), v) =
     (- 97 / 10 \<le> y \<and> x * x + y * y + z * z < 90000 \<and>
      1 / 2 \<le> \<bar>fst (snd (flight_tick ((x, y, z), v)))\<bar>)"

fun out_of_range :: "vec3 \<times> vec3 \<Rightarrow> bool" where
  "out_of_range ((x, y, z), v) = (- 97 / 10 \<le> y \<and> 90000 \<le> x * x + y * y + z * z)"

fun fly :: "nat \<Rightarrow> vec3 \<times> vec3 \<Rightarrow> vec3 \<times> vec3" where
  "fly 0 s = s"
| "fly (Suc n) s = fly n (flight_tick (flight_tick s))"

fun sky :: "nat \<Rightarrow> vec3 \<times> vec3 \<Rightarrow> bool" where
  "sky 0 s = True"
| "sky (Suc n) s = (airborne s \<and> airborne (flight_tick s) \<and> sky n (flight_tick (flight_tick s)))"

text \<open>
  The states of that run. \<open>in_play\<close>: the started game on level one, nine pitches left,
  the constructor's clock. \<open>in_flight g s\<close>: the bodies are the bat, at rest where
  \<open>frame_at\<close> draws it, and a hit ball with center and velocity \<open>s\<close>; the pitch timer is
  still 0. \<open>waiting g armed tm\<close>: the bat is the only body, no ball is hit, the flag
  \<open>pitch_time\<close> is \<open>armed\<close> and the pitch timer is \<open>tm\<close>.
\<close>

definition in_play :: "game \<Rightarrow> bool" where
  "in_play g =
     (dt g = 1 / 20 \<and> time_scale g = 1 \<and> current_game_state g = started \<and>
      current_game_level g = game_level_one \<and> pitch_count g = 9)"

definition in_flight :: "game \<Rightarrow> vec3 \<times> vec3 \<Rightarrow> bool" where
  "in_flight g s =
     (in_play g \<and> ball_hit g \<and> pitch_timer g = 0 \<and>
      (\<exists>b0 b1. bodies g = [b0, b1] \<and> shape b0 = cylinder \<and> shape b1 = ball_4 \<and>
         center b0 = (0, 1, 0) \<and> linear_velocity b0 = (0, 0, 0) \<and>
         (center b1, linear_velocity b1) = s))"

definition waiting :: "game \<Rightarrow> bool \<Rightarrow> real \<Rightarrow> bool" where
  "waiting g armed tm =
     (in_play g \<and> \<not> ball_hit g \<and> pitch_time g = armed \<and> pitch_timer g = tm \<and>
      (\<exists>b0. bodies g = [b0] \<and> shape b0 = cylinder \<and>
         center b0 = (0, 1, 0) \<and> linear_velocity b0 = (0, 0, 0)))"

text \<open>
  \<open>judged g\<close>: the cues of the judged bounces, in order. \<open>flight_goes_on fs g\<close>: the
  frames \<open>fs\<close> all return and, before each of them and after the last, a ball is hit and
  the bodies are two: the same ball stays in flight, since a frame that ends a flight
  clears \<open>ball_hit\<close>. \<open>one_flight g0 h\<close> relates the state \<open>g0\<close> at the start of such a frame
  to a later state \<open>h\<close> of the frame: either the flight goes on or the flags are cleared
  and the ball is gone; and either nothing was judged and the flag is as it was, or the
  flag was not set, one bounce was judged, and the flag is set.
\<close>

definition judged :: "game \<Rightarrow> event list" where
  "judged g = filter (\<lambda>e. e = play_homerun \<or> e = play_no_homerun) (events g)"

fun flight_goes_on :: "(mat4 \<Rightarrow> mat4) \<Rightarrow> frame list \<Rightarrow> game \<Rightarrow> bool" where
  "flight_goes_on Mat4_inverse [] g = (ball_hit g \<and> length (bodies g) = 2)"
| "flight_goes_on Mat4_inverse (f # fs) g =
     (ball_hit g \<and> length (bodies g) = 2 \<and>
      (case display Mat4_inverse f g of None \<Rightarrow> False
       | Some g1 \<Rightarrow> flight_goes_on Mat4_inverse fs g1))"

definition one_flight :: "game \<Rightarrow> game \<Rightarrow> bool" where
  "one_flight g0 h =
     ((if ball_hit h then length (bodies h) = 2 else \<not> ball_bounced h \<and> length (bodies h) < 2) \<and>
      (judged h = judged g0 \<and> (ball_hit h \<longrightarrow> ball_bounced h = ball_bounced g0) \<or>
       \<not> ball_bounced g0 \<and> (\<exists>c. judged h = judged g0 @ [c]) \<and> (ball_hit h \<longrightarrow> ball_bounced h)))"

section \<open>Properties\<close>

subsection \<open>Interpolation and the example bodies\<close>

lemma Vec_mix_0: "Vec_mix a b 0 = a"
  by (cases a; cases b) simp

lemma Vec_mix_1: "Vec_mix a b 1 = b"
  by (cases a; cases b) simp

lemma Vec4_mix_0: "Vec4_mix a b 0 = a"
  by (cases a; cases b) simp

lemma Vec4_mix_1: "Vec4_mix a b 1 = b"
  by (cases a; cases b) simp

lemma blend_rotation_0: "blend_rotation 0 b = previous_rotation (previous b)"
  by (simp add: blend_rotation_def Vec4_mix_0 split: prod.split)

lemma blend_rotation_1: "blend_rotation 1 b = rotation b"
  by (simp add: blend_rotation_def Vec4_mix_1 split: prod.split)

lemma advances_append: "advances (xs @ ys) b = advances ys (advances xs b)"
  by (induction xs arbitrary: b) simp_all

lemma example_ball_fields:
  "center example_ball = (0, 0, - 20)"
  "rotation example_ball = Mat4_scale (1, 1, 1)"
  "previous example_ball = \<lparr>previous_center = (0, 0, - 20), previous_rotation = Mat4_scale (1, 1, 1)\<rparr>"
  "linear_velocity example_ball = (0.4, 0, 10)"
  "angular_velocity example_ball = 0"
  "spin_axis example_ball = (0, 0, 1)"
  "body_size example_ball = (0.5, 0.5, 1)"
  "body_inverse example_ball = None"
  "shape example_ball = ball_4"
  by (simp_all add: example_ball_def new_Body_def emplace_def Let_def Mat_row_times_def)

lemma example_bat_fields:
  "center example_bat = (0, 0, 0)"
  "linear_velocity example_bat = (0, 0, 0)"
  "shape example_bat = cylinder"
  by (simp_all add: example_bat_def new_Body_def emplace_def Let_def Mat_row_times_def)

subsection \<open>Body.advance and Body.blend\_state\<close>

text \<open>
  Claim C4. For every body and every time amount, \<open>advance\<close> stores the current center
  and rotation in \<open>previous\<close>, moves the center by the linear velocity times the time
  amount, and multiplies the rotation from the left by the rotation of angle
  \<open>time_amount * angular_velocity\<close> about the spin axis. Hence, after an \<open>emplace\<close> and
  any run of \<open>advance\<close> calls, \<open>previous\<close> after the last call is the center and rotation
  the body had before it: one step behind. The time amounts need not be positive.
\<close>

theorem advance_one_step_lag:
  "previous (advance d b) = \<lparr>previous_center = center b, previous_rotation = rotation b\<rparr> \<and>
   center (advance d b) = Vec_plus (center b) (Vec_times (linear_velocity b) d) \<and>
   rotation (advance d b) =
     Mat_times (Mat4_rotation (d * angular_velocity b) (spin_axis b)) (rotation b) \<and>
   previous (advances (ds @ [d]) (emplace b0 m lv av axis)) =
     \<lparr>previous_center = center (advances ds (emplace b0 m lv av axis)),
      previous_rotation = rotation (advances ds (emplace b0 m lv av axis))\<rparr>"
  by (simp add: advance_def advances_append)

theorem advance_one_step_lag_witness:
  "previous (advance (1 / 20) example_ball) =
     \<lparr>previous_center = (0, 0, - 20), previous_rotation = Mat4_scale (1, 1, 1)\<rparr> \<and>
   center (advance (1 / 20) example_ball) = (1 / 50, 0, - 39 / 2) \<and>
   previous_center (previous (advances [1 / 20, 1 / 20] example_ball)) = (1 / 50, 0, - 39 / 2)"
  using advance_one_step_lag [of "1 / 20" example_ball "[1 / 20]" example_ball
      "Mat4_translation (0, 0, - 20)" "(0.4, 0, 10)" 0 "(0, 0, 1)"]
  by (simp add: example_ball_fields advance_def)

text \<open>
  Claim C8. \<open>blend_state 0\<close> draws the body at the pose composed from the previous center
  and the previous rotation, times the scale by its size, and \<open>blend_state 1\<close> draws it at
  the pose composed from the current center and rotation, times the same scale. After an
  \<open>advance\<close>, the first is the pose of the state before that step.
\<close>

theorem blend_state_endpoints:
  "drawn_location (blend_state 0 b) =
     pose_of (previous_center (previous b)) (previous_rotation (previous b)) (body_size b) \<and>
   drawn_location (blend_state 1 b) = pose_of (center b) (rotation b) (body_size b) \<and>
   drawn_location (blend_state 0 (advance d b)) = pose_of (center b) (rotation b) (body_size b)"
  by (simp add: blend_state_def pose_of_def blend_rotation_0 blend_rotation_1 Vec_mix_0 Vec_mix_1
      advance_def)

theorem blend_state_endpoints_witness:
  "drawn_location (blend_state 0 (advance (1 / 20) example_ball)) =
     ((1 / 2, 0, 0, 0), (0, 1 / 2, 0, 0), (0, 0, 1, - 20), (0, 0, 0, 1)) \<and>
   drawn_location (blend_state 1 (advance (1 / 20) example_ball)) =
     ((1 / 2, 0, 0, 1 / 50), (0, 1 / 2, 0, 0), (0, 0, 1, - 39 / 2), (0, 0, 0, 1))"
  using blend_state_endpoints [of "advance (1 / 20) example_ball" "1 / 20"]
  by (simp add: example_ball_fields advance_def pose_of_def Mat_row_times_def Mat4_rotation_def
      Vec_norm_def)

subsection \<open>Body.check\_if\_colliding\<close>

text \<open>
  Claim C5. \<open>check_if_colliding\<close> returns a truth value and nothing else: the bodies are
  arguments, no state comes back. A body does not collide with itself. For two different
  bodies \<open>a\<close> and \<open>b\<close>, when \<open>a\<close> caches the inverse of its drawn pose, the result is true
  exactly when some point of the collider, transformed by that inverse times the drawn
  pose of \<open>b\<close>, passes the collider's test with its leeway. The sphere test compares the
  squared norm of the point with \<open>1 + margin\<close>.
\<close>

theorem check_if_colliding_iff:
  "check_if_colliding bs a a col = Inr False \<and>
   (a \<noteq> b \<and> body_inverse (bs ! a) = Some (Mat4_inverse (drawn_location (bs ! a))) \<longrightarrow>
      check_if_colliding bs a b col =
        Inr (\<exists>p \<in> set (points col).
               intersect_test col
                 (to3 (Mat_times_vec
                    (Mat_times (Mat4_inverse (drawn_location (bs ! a))) (drawn_location (bs ! b)))
                    (to4 p 1)))
                 (leeway col))) \<and>
   (intersect_sphere q margin \<longleftrightarrow> Vec_dot q q < 1 + margin)"
  by (simp add: check_if_colliding_def list_ex_iff intersect_sphere_def)

theorem check_if_colliding_iff_witness:
  "check_if_colliding
     [example_bat\<lparr>drawn_location := Mat4_scale (2, 2, 2),
                  body_inverse := Some (Mat4_scale (1 / 2, 1 / 2, 1 / 2))\<rparr>,
      example_ball\<lparr>drawn_location := Mat4_translation (1, 0, 0)\<rparr>] 0 0
     \<lparr>intersect_test = intersect_sphere, points = [(1, 0, 0), (- 1, 0, 0)], leeway = 0.7\<rparr> = Inr False \<and>
   check_if_colliding
     [example_bat\<lparr>drawn_location := Mat4_scale (2, 2, 2),
                  body_inverse := Some (Mat4_scale (1 / 2, 1 / 2, 1 / 2))\<rparr>,
      example_ball\<lparr>drawn_location := Mat4_translation (1, 0, 0)\<rparr>] 0 1
     \<lparr>intersect_test = intersect_sphere, points = [(1, 0, 0), (- 1, 0, 0)], leeway = 0.7\<rparr> = Inr True"
  using check_if_colliding_iff [of
     "[example_bat\<lparr>drawn_location := Mat4_scale (2, 2, 2),
                  body_inverse := Some (Mat4_scale (1 / 2, 1 / 2, 1 / 2))\<rparr>,
      example_ball\<lparr>drawn_location := Mat4_translation (1, 0, 0)\<rparr>]" 0
     "\<lparr>intersect_test = intersect_sphere, points = [(1, 0, 0), (- 1, 0, 0)], leeway = 0.7\<rparr>"
     1 "\<lambda>m. Mat4_scale (1 / 2, 1 / 2, 1 / 2)"]
  by (simp add: intersect_sphere_def Mat_row_times_def)


subsection \<open>What update\_state leaves alone\<close>

lemma same_refl: "same_rules g g \<and> same_clock g g"
  by (simp add: same_rules_def same_clock_def)

lemma same_rules_trans: "same_rules g g1 \<Longrightarrow> same_rules g1 g2 \<Longrightarrow> same_rules g g2"
  by (simp add: same_rules_def)

lemma same_clock_trans: "same_clock g g1 \<Longrightarrow> same_clock g1 g2 \<Longrightarrow> same_clock g g2"
  by (simp add: same_clock_def)

lemma same_on_collision: "same_rules g (on_collision b g) \<and> same_clock g (on_collision b g)"
  by (simp add: same_rules_def same_clock_def on_collision_def)

lemma same_trans:
  "same_rules g g1 \<and> same_clock g g1 \<Longrightarrow> same_rules g1 g2 \<and> same_clock g1 g2 \<Longrightarrow>
   same_rules g g2 \<and> same_clock g g2"
  by (simp add: same_rules_def same_clock_def)

lemma same_inner_loop: "same_rules g (inner_loop a bs g) \<and> same_clock g (inner_loop a bs g)"
proof (induction bs arbitrary: g)
  case Nil
  show ?case by (simp add: same_refl)
next
  case (Cons b bs)
  define g1 where
    "g1 = (if check_if_colliding (bodies g) a b (collider g) = Inr True then on_collision b g else g)"
  have step: "inner_loop a (b # bs) g = inner_loop a bs g1"
    by (simp add: g1_def)
  have 1: "same_rules g g1 \<and> same_clock g g1"
    by (simp add: g1_def same_on_collision same_refl)
  have 2: "same_rules g1 (inner_loop a bs g1) \<and> same_clock g1 (inner_loop a bs g1)"
    by (rule Cons)
  show ?case
    unfolding step by (rule same_trans [OF 1 2])
qed

lemma same_bodies_update: "same_rules g (g\<lparr>bodies := bs\<rparr>) \<and> same_clock g (g\<lparr>bodies := bs\<rparr>)"
  by (simp add: same_rules_def same_clock_def)

lemma same_outer_loop:
  "same_rules g (outer_loop Mat4_inverse as g) \<and> same_clock g (outer_loop Mat4_inverse as g)"
proof (induction as arbitrary: g)
  case Nil
  show ?case by (simp add: same_refl)
next
  case (Cons a as)
  define g1 where "g1 = g\<lparr>bodies := (bodies g)[a := (bodies g ! a)\<lparr>body_inverse :=
     Some (Mat4_inverse (drawn_location (bodies g ! a))), material := baseball\<rparr>]\<rparr>"
  define g2 where "g2 = inner_loop a [0..<length (bodies g1)] g1"
  have step: "outer_loop Mat4_inverse (a # as) g = outer_loop Mat4_inverse as g2"
    by (simp add: g1_def g2_def Let_def)
  have 1: "same_rules g g1 \<and> same_clock g g1"
    unfolding g1_def by (rule same_bodies_update)
  have 2: "same_rules g1 g2 \<and> same_clock g1 g2"
    unfolding g2_def by (rule same_inner_loop)
  have 3: "same_rules g2 (outer_loop Mat4_inverse as g2) \<and> same_clock g2 (outer_loop Mat4_inverse as g2)"
    by (rule Cons)
  show ?case
    unfolding step by (rule same_trans [OF same_trans [OF 1 2] 3])
qed

lemma same_detect_collisions:
  "same_rules g (detect_collisions Mat4_inverse g) \<and> same_clock g (detect_collisions Mat4_inverse g)"
  by (simp add: detect_collisions_def same_outer_loop same_refl)

lemma same_judge: "same_rules g (judge g) \<and> same_clock g (judge g)"
  by (simp add: judge_def same_rules_def same_clock_def split: prod.split)

lemma same_bounce: "same_rules g (bounce g) \<and> same_clock g (bounce g)"
  using same_judge [of g]
  by (simp add: bounce_def same_rules_def same_clock_def Let_def)

lemma same_post_hit: "same_rules g (post_hit r d g) \<and> same_clock g (post_hit r d g)"
  using same_bounce [of "before_bounce r d g"]
  by (simp add: post_hit_def before_bounce_def same_rules_def same_clock_def Let_def)

lemma same_retire: "same_rules g (retire g) \<and> same_clock g (retire g)"
  by (simp add: retire_def same_rules_def same_clock_def Let_def)

lemma same_clear_flags: "same_rules g (clear_flags g) \<and> same_clock g (clear_flags g)"
  by (simp add: clear_flags_def same_rules_def same_clock_def)

lemma same_update_state:
  "same_rules g (update_state Mat4_inverse r d g) \<and> same_clock g (update_state Mat4_inverse r d g)"
proof -
  define g1 where "g1 = detect_collisions Mat4_inverse g"
  define g2 where "g2 = (if ball_hit g1 then post_hit r d g1 else g1)"
  define g3 where "g3 = retire g2"
  have 1: "same_rules g g1 \<and> same_clock g g1"
    unfolding g1_def by (rule same_detect_collisions)
  have 2: "same_rules g1 g2 \<and> same_clock g1 g2"
    by (simp add: g2_def same_post_hit same_refl)
  have 3: "same_rules g2 g3 \<and> same_clock g2 g3"
    unfolding g3_def by (rule same_retire)
  note 13 = same_trans [OF same_trans [OF 1 2] 3]
  note 14 = same_trans [OF 13 same_clear_flags]
  note 15 = same_trans [OF 14 same_bodies_update [of "clear_flags g3" "butlast (bodies g3)"]]
  have "update_state Mat4_inverse r d g =
     (if 1 < length (bodies g1)
      then if length (bodies g3) < 2 then clear_flags g3
           else if stopped (bodies g2 ! 1) then (clear_flags g3)\<lparr>bodies := butlast (bodies g3)\<rparr>
           else g3
      else g1)"
    by (simp add: update_state_def Let_def g1_def g2_def g3_def)
  then show ?thesis
    using 1 13 14 15 by simp
qed

lemma same_step_bodies:
  "same_rules g (step_bodies Mat4_inverse rnd g) \<and> same_clock g (step_bodies Mat4_inverse rnd g)"
proof -
  define g1 where "g1 = update_state Mat4_inverse (rnd (steps_taken g)) (dt g) g"
  have 1: "same_rules g g1 \<and> same_clock g g1"
    unfolding g1_def by (rule same_update_state)
  have "step_bodies Mat4_inverse rnd g = g1\<lparr>bodies := map (advance (dt g1)) (bodies g1)\<rparr>"
    by (simp add: step_bodies_def Let_def g1_def)
  then show ?thesis
    using same_trans [OF 1 same_bodies_update] by simp
qed

subsection \<open>The stepping loop returns\<close>

lemma stepping_stop: "\<bar>time_accumulator g\<bar> < dt g \<Longrightarrow> stepping work ft g = Some g"
  by (subst stepping.simps) simp

lemma stepping_step:
  "dt g \<le> \<bar>time_accumulator g\<bar> \<Longrightarrow> stepping work ft g = stepping work ft (clock_tick ft (work g))"
  by (subst stepping.simps) simp

lemma stepping_returns:
  assumes work: "\<And>g. same_rules g (work g) \<and> same_clock g (work g)" and ft: "0 < ft"
  shows "0 < dt g \<Longrightarrow> 0 \<le> time_accumulator g \<Longrightarrow> nat \<lfloor>time_accumulator g / dt g\<rfloor> = n \<Longrightarrow>
    \<exists>g'. stepping work ft g = Some g' \<and> 0 \<le> time_accumulator g' \<and> time_accumulator g' < dt g' \<and>
         same_rules g g' \<and> steps_taken g' = steps_taken g + n"
proof (induction n arbitrary: g)
  case 0
  then have "time_accumulator g / dt g < 1" by linarith
  with 0 have "time_accumulator g < dt g" by (simp add: divide_less_eq)
  with 0 show ?case by (simp add: stepping_stop same_refl)
next
  case (Suc n)
  let ?g1 = "clock_tick ft (work g)"
  from Suc.prems have fl: "\<lfloor>time_accumulator g / dt g\<rfloor> = int n + 1" by linarith
  then have "1 \<le> time_accumulator g / dt g" by linarith
  with Suc.prems have ge: "dt g \<le> time_accumulator g" by (simp add: le_divide_eq)
  have w: "same_rules g (work g)" "same_clock g (work g)" using work by auto
  have acc1: "time_accumulator ?g1 = time_accumulator g - dt g" and dt1: "dt ?g1 = dt g"
    and st1: "steps_taken ?g1 = steps_taken g + 1" and r1: "same_rules g ?g1"
    using w ft by (simp_all add: clock_tick_def same_rules_def same_clock_def)
  have "time_accumulator ?g1 / dt ?g1 = time_accumulator g / dt g - 1"
    using Suc.prems(1) by (simp add: acc1 dt1 diff_divide_distrib)
  then have "nat \<lfloor>time_accumulator ?g1 / dt ?g1\<rfloor> = n" using fl by simp
  moreover have "0 < dt ?g1" "0 \<le> time_accumulator ?g1" using Suc.prems ge by (simp_all add: acc1 dt1)
  ultimately obtain g' where g': "stepping work ft ?g1 = Some g'" "0 \<le> time_accumulator g'"
    "time_accumulator g' < dt g'" "same_rules ?g1 g'" "steps_taken g' = steps_taken ?g1 + n"
    using Suc.IH [of ?g1] by blast
  have "stepping work ft g = stepping work ft ?g1"
    using ge Suc.prems by (simp add: stepping_step)
  with g' r1 st1 show ?case
    by (auto intro: same_rules_trans)
qed

lemma loop_returns:
  assumes work: "\<And>g. same_rules g (work g) \<and> same_clock g (work g)"
    and acc: "0 \<le> time_accumulator g" "time_accumulator g < dt g" and ft: "0 \<le> ft"
  shows "\<exists>g'. stepping work ft (g\<lparr>time_accumulator := time_accumulator g + min ft 0.1\<rparr>) = Some g' \<and>
    0 \<le> time_accumulator g' \<and> time_accumulator g' < dt g' \<and> same_rules g g' \<and>
    steps_taken g' = steps_taken g + nat \<lfloor>(time_accumulator g + min ft 0.1) / dt g\<rfloor>"
proof (cases "ft = 0")
  case True
  let ?g1 = "g\<lparr>time_accumulator := time_accumulator g + min ft 0.1\<rparr>"
  have "stepping work ft ?g1 = Some ?g1"
    using acc True by (simp add: stepping_stop)
  moreover have "\<lfloor>time_accumulator g / dt g\<rfloor> = 0"
    using acc by (simp add: floor_eq_iff)
  ultimately show ?thesis using acc True
    by (simp add: same_rules_def)
next
  case False
  let ?g1 = "g\<lparr>time_accumulator := time_accumulator g + min ft 0.1\<rparr>"
  from False ft have pos: "0 < ft" by simp
  have "0 < dt ?g1" "0 \<le> time_accumulator ?g1" using acc pos by simp_all
  from stepping_returns [OF work pos this refl]
  obtain g' where "stepping work ft ?g1 = Some g'" "0 \<le> time_accumulator g'"
    "time_accumulator g' < dt g'" "same_rules ?g1 g'"
    "steps_taken g' = steps_taken ?g1 + nat \<lfloor>time_accumulator ?g1 / dt ?g1\<rfloor>"
    by blast
  then show ?thesis by (auto simp: same_rules_def)
qed


lemma simulate_returns:
  assumes acc: "0 \<le> time_accumulator g" "time_accumulator g < dt g"
    and ft: "0 \<le> time_scale g * frame_time"
  shows "\<exists>g2. stepping (step_bodies Mat4_inverse rnd) (time_scale g * frame_time)
           (g\<lparr>time_accumulator := time_accumulator g + min (time_scale g * frame_time) 0.1\<rparr>) = Some g2 \<and>
         simulate Mat4_inverse rnd frame_time g =
           Some (g2\<lparr>bodies := map (blend_state (time_accumulator g2 / dt g2)) (bodies g2)\<rparr>) \<and>
         0 \<le> time_accumulator g2 \<and> time_accumulator g2 < dt g2 \<and> same_rules g g2 \<and>
         steps_taken g2 = steps_taken g +
           nat \<lfloor>(time_accumulator g + min (time_scale g * frame_time) 0.1) / dt g\<rfloor>"
proof -
  from loop_returns [of "step_bodies Mat4_inverse rnd" g "time_scale g * frame_time",
      OF same_step_bodies acc ft]
  obtain g2 where g2: "stepping (step_bodies Mat4_inverse rnd) (time_scale g * frame_time)
           (g\<lparr>time_accumulator := time_accumulator g + min (time_scale g * frame_time) 0.1\<rparr>) = Some g2"
    "0 \<le> time_accumulator g2" "time_accumulator g2 < dt g2" "same_rules g g2"
    "steps_taken g2 = steps_taken g +
           nat \<lfloor>(time_accumulator g + min (time_scale g * frame_time) 0.1) / dt g\<rfloor>"
    by blast
  from g2(1) have "simulate Mat4_inverse rnd frame_time g =
           Some (g2\<lparr>bodies := map (blend_state (time_accumulator g2 / dt g2)) (bodies g2)\<rparr>)"
    by (simp add: simulate_def Let_def)
  with g2 show ?thesis by blast
qed

lemma title_balls_loop_general:
  assumes acc: "0 \<le> time_accumulator g" "time_accumulator g < dt g"
    and ft: "0 \<le> time_scale g * delta"
  shows "\<exists>g2. title_balls_loop delta g = Some g2 \<and> 0 \<le> time_accumulator g2 \<and>
           time_accumulator g2 < dt g2 \<and> same_rules g g2"
proof -
  have work: "\<And>g. same_rules g ((\<lambda>g. g) g) \<and> same_clock g ((\<lambda>g. g) g)"
    by (simp add: same_refl)
  from loop_returns [of "\<lambda>g. g" g "time_scale g * delta", OF work acc ft]
  obtain g2 where g2: "stepping (\<lambda>g. g) (time_scale g * delta)
      (g\<lparr>time_accumulator := time_accumulator g + min (time_scale g * delta) 0.1\<rparr>) = Some g2"
    "0 \<le> time_accumulator g2" "time_accumulator g2 < dt g2" "same_rules g g2"
    by blast
  have "title_balls_loop delta g = Some g2"
    using g2(1) by (simp add: title_balls_loop_def Let_def)
  with g2 show ?thesis by blast
qed

lemma two_steps:
  assumes "0 \<le> a" "a < 1 / 20" "0 \<le> (ft::real)"
  shows "nat \<lfloor>(a + min ft 0.1) / (1 / 20)\<rfloor> \<le> 2"
proof -
  have "(a + min ft 0.1) / (1 / 20) < 3" using assms by (simp add: min_def)
  then have "\<lfloor>(a + min ft 0.1) / (1 / 20)\<rfloor> < 3" by (simp add: floor_less_iff)
  then show ?thesis by linarith
qed

lemma simulate_clock_ok:
  assumes "clock_ok g" "0 \<le> frame_time"
  shows "\<exists>g'. simulate Mat4_inverse rnd frame_time g = Some g' \<and> clock_ok g' \<and>
          steps_taken g' \<le> steps_taken g + 2 \<and> same_rules g g'"
proof -
  from assms have acc: "0 \<le> time_accumulator g" "time_accumulator g < dt g"
    and ft: "0 \<le> time_scale g * frame_time" and dt: "dt g = 1 / 20" and ts: "time_scale g = 1"
    by (simp_all add: clock_ok_def)
  from simulate_returns [OF acc ft, of Mat4_inverse rnd]
  obtain g2 where g2: "simulate Mat4_inverse rnd frame_time g =
           Some (g2\<lparr>bodies := map (blend_state (time_accumulator g2 / dt g2)) (bodies g2)\<rparr>)"
     "0 \<le> time_accumulator g2" "time_accumulator g2 < dt g2" "same_rules g g2"
     "steps_taken g2 = steps_taken g +
           nat \<lfloor>(time_accumulator g + min (time_scale g * frame_time) 0.1) / dt g\<rfloor>"
    by blast
  have a: "time_accumulator g < 1 / 20" using acc(2) by (simp only: dt)
  have "(time_accumulator g + min (time_scale g * frame_time) 0.1) / dt g =
        (time_accumulator g + min frame_time 0.1) / (1 / 20)"
    by (simp only: dt ts mult_1)
  then have "nat \<lfloor>(time_accumulator g + min (time_scale g * frame_time) 0.1) / dt g\<rfloor> \<le> 2"
    using two_steps [OF acc(1) a assms(2)] by (simp only:)
  with g2(5) have st: "steps_taken g2 \<le> steps_taken g + 2" by linarith
  from g2(4) have "dt g2 = dt g" "time_scale g2 = time_scale g"
    by (simp_all add: same_rules_def)
  with dt ts have "dt g2 = 1 / 20" "time_scale g2 = 1" by (simp_all only:)
  with g2(2,3) have "clock_ok (g2\<lparr>bodies := map (blend_state (time_accumulator g2 / dt g2)) (bodies g2)\<rparr>)"
    by (simp add: clock_ok_def)
  moreover have "same_rules g (g2\<lparr>bodies := map (blend_state (time_accumulator g2 / dt g2)) (bodies g2)\<rparr>)"
    using g2(4) by (simp add: same_rules_def)
  ultimately show ?thesis using g2(1) st by simp
qed

lemma simulates_clock_ok:
  "clock_ok g \<Longrightarrow> \<forall>ft \<in> set fts. 0 \<le> ft \<Longrightarrow>
     \<exists>g'. simulates Mat4_inverse rnd fts g = Some g' \<and> clock_ok g'"
proof (induction fts arbitrary: g)
  case Nil
  then show ?case by simp
next
  case (Cons ft fts)
  then obtain g1 where g1: "simulate Mat4_inverse rnd ft g = Some g1" "clock_ok g1"
    using simulate_clock_ok [of g ft Mat4_inverse rnd] by auto
  with Cons.IH [of g1] Cons.prems show ?case by simp
qed

lemma clock_ok_initial: "clock_ok (initial sphere_points)"
  by (simp add: clock_ok_def initial_def)

lemma simulate_first_frame:
  "\<exists>g. simulate (\<lambda>m. m) (\<lambda>k. 0) 16 (initial []) = Some g \<and> steps_taken g = 2 \<and>
     time_accumulator g = 0 \<and> t g = 1 / 10"
  by (simp add: simulate_def initial_def stepping_step stepping_stop clock_tick_def
      step_bodies_def update_state_def detect_collisions_def Let_def)

text \<open>
  Claim C1. From the state the constructor builds (accumulator 0, step 1/20, at most 0.1
  added per frame) and after any sequence of \<open>simulate\<close> calls with frame times that are
  not negative, a further such call returns and runs the stepping loop at most twice:
  \<open>steps_taken\<close>, which counts the iterations, grows by at most 2, however large the
  frame time is. (\<open>simulate_first_frame\<close> shows a call that takes two steps.)
\<close>

theorem simulate_at_most_two_steps:
  assumes "\<forall>ft \<in> set frame_times. 0 \<le> ft" and "0 \<le> frame_time"
  shows "\<exists>g g'. simulates Mat4_inverse rnd frame_times (initial sphere_points) = Some g \<and>
           simulate Mat4_inverse rnd frame_time g = Some g' \<and>
           steps_taken g' \<le> steps_taken g + 2"
proof -
  from simulates_clock_ok [OF clock_ok_initial assms(1)]
  obtain g where g: "simulates Mat4_inverse rnd frame_times (initial sphere_points) = Some g"
    "clock_ok g" by blast
  from simulate_clock_ok [OF g(2) assms(2)] g(1) show ?thesis by blast
qed

theorem simulate_at_most_two_steps_witness:
  "\<exists>g g'. simulates (\<lambda>m. m) (\<lambda>k. 0) [16, 0, 16] (initial []) = Some g \<and>
      simulate (\<lambda>m. m) (\<lambda>k. 0) 16 g = Some g' \<and> steps_taken g' \<le> steps_taken g + 2"
  using simulate_at_most_two_steps [of "[16, 0, 16]" 16 "\<lambda>m. m" "\<lambda>k. 0" "[]"]
  by simp



text \<open>
  Claim C10. If the accumulator is in \<open>[0, dt)\<close> before a call of \<open>simulate\<close> and the
  frame time (after the scaling of line 363) is not negative, the stepping loop returns
  with the accumulator in \<open>[0, dt)\<close> again. The factor \<open>alpha = time_accumulator / dt\<close>
  that \<open>simulate\<close> then passes to \<open>blend_state\<close> for every body is in \<open>[0, 1)\<close>, and so is
  the factor of the title-ball loops of \<open>display\<close>, the other callers of \<open>blend_state\<close>.
\<close>

theorem simulate_alpha_in_range:
  assumes "0 \<le> time_accumulator g" and "time_accumulator g < dt g"
    and "0 \<le> time_scale g * frame_time"
  shows "\<exists>g2 alpha g3.
           stepping (step_bodies Mat4_inverse rnd) (time_scale g * frame_time)
             (g\<lparr>time_accumulator := time_accumulator g + min (time_scale g * frame_time) 0.1\<rparr>) = Some g2 \<and>
           0 \<le> time_accumulator g2 \<and> time_accumulator g2 < dt g2 \<and>
           alpha = time_accumulator g2 / dt g2 \<and> 0 \<le> alpha \<and> alpha < 1 \<and>
           simulate Mat4_inverse rnd frame_time g =
             Some (g2\<lparr>bodies := map (blend_state alpha) (bodies g2)\<rparr>) \<and>
           title_balls_loop frame_time g = Some g3 \<and>
           0 \<le> time_accumulator g3 / dt g3 \<and> time_accumulator g3 / dt g3 < 1"
proof -
  from simulate_returns [OF assms, of Mat4_inverse rnd]
  obtain g2 where g2: "stepping (step_bodies Mat4_inverse rnd) (time_scale g * frame_time)
           (g\<lparr>time_accumulator := time_accumulator g + min (time_scale g * frame_time) 0.1\<rparr>) = Some g2"
     "simulate Mat4_inverse rnd frame_time g =
           Some (g2\<lparr>bodies := map (blend_state (time_accumulator g2 / dt g2)) (bodies g2)\<rparr>)"
     "0 \<le> time_accumulator g2" "time_accumulator g2 < dt g2"
    by blast
  then have a2: "0 \<le> time_accumulator g2 / dt g2" "time_accumulator g2 / dt g2 < 1"
    by simp_all
  from title_balls_loop_general [OF assms]
  obtain g3 where g3: "title_balls_loop frame_time g = Some g3"
    "0 \<le> time_accumulator g3" "time_accumulator g3 < dt g3"
    by blast
  then have "0 \<le> time_accumulator g3 / dt g3" "time_accumulator g3 / dt g3 < 1"
    by simp_all
  with g2 a2 g3(1) show ?thesis by blast
qed

theorem simulate_alpha_in_range_witness:
  "\<exists>g' alpha. simulate (\<lambda>m. m) (\<lambda>k. 0) (1 / 25) ((initial [])\<lparr>time_accumulator := 3 / 100\<rparr>) = Some g' \<and>
      alpha = time_accumulator g' / dt g' \<and> 0 \<le> alpha \<and> alpha < 1"
proof -
  from simulate_alpha_in_range [of "(initial [])\<lparr>time_accumulator := 3 / 100\<rparr>" "1 / 25"
      "\<lambda>m. m" "\<lambda>k. 0"]
  obtain g2 alpha where
    "simulate (\<lambda>m. m) (\<lambda>k. 0) (1 / 25) ((initial [])\<lparr>time_accumulator := 3 / 100\<rparr>) =
       Some (g2\<lparr>bodies := map (blend_state alpha) (bodies g2)\<rparr>)"
    "alpha = time_accumulator g2 / dt g2" "0 \<le> alpha" "alpha < 1"
    by (auto simp: initial_def)
  then show ?thesis by simp
qed

subsection \<open>The hit ball: bounce, home run, settling\<close>

lemma detect_collisions_hit: "ball_hit g \<Longrightarrow> detect_collisions Mat4_inverse g = g"
  by (simp add: detect_collisions_def)

lemma judge_bodies: "bodies (judge g) = bodies g"
  by (simp add: judge_def split: prod.split)

lemma bounce_score_events:
  assumes "center (bodies s ! 1) = (x, y, z)"
  shows "falls_through_floor (bodies s ! 1) \<and> \<not> ball_bounced s \<and> is_home_run x z \<longrightarrow>
           ball_bounced (bounce s) \<and> game_score (bounce s) = game_score s + 1 \<and>
           events (bounce s) = events s @ [play_homerun]"
    and "falls_through_floor (bodies s ! 1) \<and> \<not> ball_bounced s \<and> \<not> is_home_run x z \<longrightarrow>
           ball_bounced (bounce s) \<and> game_score (bounce s) = game_score s \<and>
           events (bounce s) = events s @ [play_no_homerun]"
    and "falls_through_floor (bodies s ! 1) \<and> ball_bounced s \<longrightarrow>
           ball_bounced (bounce s) \<and> game_score (bounce s) = game_score s \<and>
           events (bounce s) = events s"
    and "\<not> falls_through_floor (bodies s ! 1) \<longrightarrow> bounce s = s"
  using assms by (simp_all add: bounce_def judge_def Let_def)

lemma bounce_dampens:
  assumes "1 < length (bodies s)" "linear_velocity (bodies s ! 1) = (vx, vy, vz)"
    "falls_through_floor (bodies s ! 1)"
  shows "linear_velocity (bodies (bounce s) ! 1) = (vx * 0.6, vy * - 0.6, vz * 0.6) \<and>
         angular_velocity (bodies (bounce s) ! 1) = angular_velocity (bodies s ! 1) * 0.5"
  using assms by (simp add: bounce_def Let_def judge_bodies dampen_def)

lemma before_bounce_fields:
  "ball_bounced (before_bounce r d g) = ball_bounced g"
  "game_score (before_bounce r d g) = game_score g"
  "events (before_bounce r d g) = events g"
  "ball_hit (before_bounce r d g) = ball_hit g"
  "length (bodies (before_bounce r d g)) = length (bodies g)"
  by (simp_all add: before_bounce_def)

lemma retire_score: "game_score (retire g) = game_score g"
  by (simp add: retire_def Let_def)

lemma retire_events: "\<exists>n. events (retire g) = events g @ replicate n camera_decrease"
proof (cases "ball_hit g")
  case True
  let ?cs = "filter (\<lambda>b. Vec_norm (center b) < 90) (filter (\<lambda>b. Vec_norm (center b) < 300) (bodies g))"
  have "map (\<lambda>b. camera_decrease) ?cs = replicate (length ?cs) camera_decrease"
    by (simp add: map_replicate_const)
  with True show ?thesis by (simp add: retire_def Let_def)
next
  case False
  then have "events (retire g) = events g @ replicate 0 camera_decrease"
    by (simp add: retire_def)
  then show ?thesis by blast
qed

lemma post_hit_score_events:
  "game_score (post_hit r d g) = game_score (bounce (before_bounce r d g))"
  "events (post_hit r d g) = events (bounce (before_bounce r d g))"
  "ball_hit (post_hit r d g) = ball_hit (bounce (before_bounce r d g))"
  by (simp_all add: post_hit_def Let_def)

lemma bounce_ball_hit: "ball_hit (bounce s) = ball_hit s"
  by (simp add: bounce_def judge_def Let_def split: prod.split)

lemma update_state_hit:
  assumes "ball_hit g" "1 < length (bodies g)"
  shows "update_state Mat4_inverse r d g =
     (let g2 = post_hit r d g; g3 = retire g2
      in if length (bodies g3) < 2 then clear_flags g3
         else if stopped (bodies g2 ! 1) then (clear_flags g3)\<lparr>bodies := butlast (bodies g3)\<rparr>
         else g3)"
  using assms by (simp add: update_state_def detect_collisions_hit Let_def)

lemma update_state_score_events:
  assumes "ball_hit g" "1 < length (bodies g)"
  shows "game_score (update_state Mat4_inverse r d g) = game_score (bounce (before_bounce r d g)) \<and>
    (\<exists>n. events (update_state Mat4_inverse r d g) =
          events (bounce (before_bounce r d g)) @ replicate n camera_decrease)"
proof -
  let ?g2 = "post_hit r d g"
  let ?g3 = "retire ?g2"
  obtain n where n: "events ?g3 = events ?g2 @ replicate n camera_decrease"
    using retire_events by blast
  have "game_score (update_state Mat4_inverse r d g) = game_score ?g3 \<and>
        events (update_state Mat4_inverse r d g) = events ?g3"
    by (simp add: update_state_hit [OF assms] Let_def clear_flags_def)
  with n show ?thesis
    by (auto simp: retire_score post_hit_score_events)
qed

lemma Vec_norm_less: "0 < c \<Longrightarrow> Vec_norm v < c \<longleftrightarrow> Vec_dot v v < c * c"
proof -
  assume c: "0 < c"
  have "sqrt (Vec_dot v v) < sqrt (c * c) \<longleftrightarrow> Vec_dot v v < c * c"
    by (rule real_sqrt_less_iff)
  with c show ?thesis by (simp add: Vec_norm_def)
qed

lemma example_flight_fields:
  "ball_hit example_flight" "\<not> ball_bounced example_flight" "game_score example_flight = 0"
  "events example_flight = []"
  "bodies example_flight =
     [example_bat, example_ball\<lparr>center := (0, - 10, - 161), linear_velocity := (0, - 5, - 3)\<rparr>]"
  by (simp_all add: example_flight_def initial_def)

lemma bounce_length: "length (bodies (bounce s)) = length (bodies s)"
  by (simp add: bounce_def Let_def judge_bodies)

lemma bounce_bat: "bodies (bounce s) ! 0 = bodies s ! 0"
  by (simp add: bounce_def Let_def judge_bodies)

lemma example_rolling_fields:
  "ball_hit example_rolling" "ball_bounced example_rolling"
  "bodies example_rolling =
     [example_bat, example_ball\<lparr>center := (0, - 10, - 50), linear_velocity := (0.1, - 0.2, - 0.1)\<rparr>]"
  by (simp_all add: example_rolling_def initial_def)

text \<open>
  What holds before a loop that returns, and is kept by every iteration, holds when it
  returns.
\<close>

lemma stepping_invariant:
  assumes "stepping work ft g = Some g'" and "\<And>g. Q g \<Longrightarrow> Q (clock_tick ft (work g))"
  shows "Q g \<longrightarrow> Q g'"
proof -
  have "work = work \<longrightarrow> ft = ft \<longrightarrow> Q g \<longrightarrow> Q g'"
  proof (rule stepping.raw_induct [where P = "\<lambda>w f g y. w = work \<longrightarrow> f = ft \<longrightarrow> Q g \<longrightarrow> Q y",
        OF _ assms(1)])
    fix stepping' :: "(game \<Rightarrow> game) \<Rightarrow> real \<Rightarrow> game \<Rightarrow> game option" and w f g y
    assume IH: "\<And>f g b y. stepping' f g b = Some y \<Longrightarrow> f = work \<longrightarrow> g = ft \<longrightarrow> Q b \<longrightarrow> Q y"
      and eq: "(if dt g \<le> \<bar>time_accumulator g\<bar> then stepping' w f (clock_tick f (w g)) else Some g) = Some y"
    show "w = work \<longrightarrow> f = ft \<longrightarrow> Q g \<longrightarrow> Q y"
    proof (intro impI)
      assume w: "w = work" and f: "f = ft" and q: "Q g"
      show "Q y"
      proof (cases "dt g \<le> \<bar>time_accumulator g\<bar>")
        case True
        with eq have "stepping' w f (clock_tick f (w g)) = Some y" by simp
        from IH [OF this] w f assms(2) [OF q] show ?thesis by simp
      next
        case False
        with eq q show ?thesis by simp
      qed
    qed
  qed
  then show ?thesis by simp
qed

lemma on_collision_flight:
  "ball_bounced (on_collision b g) = ball_bounced g"
  "length (bodies (on_collision b g)) = length (bodies g)"
  "ball_hit (on_collision b g)"
  "pitch_time (on_collision b g) = pitch_time g"
  "game_score (on_collision b g) = game_score g"
  by (simp_all add: on_collision_def)

lemma inner_loop_flight:
  "ball_bounced (inner_loop a bs g) = ball_bounced g \<and>
   length (bodies (inner_loop a bs g)) = length (bodies g) \<and>
   (ball_hit g \<longrightarrow> ball_hit (inner_loop a bs g)) \<and>
   pitch_time (inner_loop a bs g) = pitch_time g \<and>
   game_score (inner_loop a bs g) = game_score g"
proof (induction bs arbitrary: g)
  case Nil
  show ?case by simp
next
  case (Cons b bs)
  define g1 where
    "g1 = (if check_if_colliding (bodies g) a b (collider g) = Inr True then on_collision b g else g)"
  have step: "inner_loop a (b # bs) g = inner_loop a bs g1"
    by (simp add: g1_def)
  have 1: "ball_bounced g1 = ball_bounced g" "length (bodies g1) = length (bodies g)"
    "ball_hit g \<longrightarrow> ball_hit g1" "pitch_time g1 = pitch_time g" "game_score g1 = game_score g"
    by (simp_all add: g1_def on_collision_flight)
  show ?case
    unfolding step using Cons [of g1] 1 by simp
qed

lemma outer_loop_flight:
  "ball_bounced (outer_loop Mat4_inverse as g) = ball_bounced g \<and>
   length (bodies (outer_loop Mat4_inverse as g)) = length (bodies g) \<and>
   (ball_hit g \<longrightarrow> ball_hit (outer_loop Mat4_inverse as g)) \<and>
   pitch_time (outer_loop Mat4_inverse as g) = pitch_time g \<and>
   game_score (outer_loop Mat4_inverse as g) = game_score g"
proof (induction as arbitrary: g)
  case Nil
  show ?case by simp
next
  case (Cons a as)
  define g1 where "g1 = g\<lparr>bodies := (bodies g)[a := (bodies g ! a)\<lparr>body_inverse :=
     Some (Mat4_inverse (drawn_location (bodies g ! a))), material := baseball\<rparr>]\<rparr>"
  define g2 where "g2 = inner_loop a [0..<length (bodies g1)] g1"
  have step: "outer_loop Mat4_inverse (a # as) g = outer_loop Mat4_inverse as g2"
    by (simp add: g1_def g2_def Let_def)
  have 1: "ball_bounced g1 = ball_bounced g" "length (bodies g1) = length (bodies g)"
    "ball_hit g1 = ball_hit g" "pitch_time g1 = pitch_time g" "game_score g1 = game_score g"
    by (simp_all add: g1_def)
  have 2: "ball_bounced g2 = ball_bounced g1 \<and> length (bodies g2) = length (bodies g1) \<and>
    (ball_hit g1 \<longrightarrow> ball_hit g2) \<and> pitch_time g2 = pitch_time g1 \<and> game_score g2 = game_score g1"
    unfolding g2_def by (rule inner_loop_flight)
  show ?case
    unfolding step using Cons [of g2] 1 2 by simp
qed

lemma detect_collisions_flight:
  "ball_bounced (detect_collisions Mat4_inverse g) = ball_bounced g"
  "length (bodies (detect_collisions Mat4_inverse g)) = length (bodies g)"
  "ball_hit g \<longrightarrow> ball_hit (detect_collisions Mat4_inverse g)"
  "pitch_time (detect_collisions Mat4_inverse g) = pitch_time g"
  "game_score (detect_collisions Mat4_inverse g) = game_score g"
  using outer_loop_flight [of Mat4_inverse "[0..<length (bodies g)]" g]
  by (simp_all add: detect_collisions_def)

lemma post_hit_length: "length (bodies (post_hit r d g)) = length (bodies g)"
  by (simp add: post_hit_def Let_def bounce_length before_bounce_fields)

lemma post_hit_bounced:
  "ball_bounced (post_hit r d g) = ball_bounced (bounce (before_bounce r d g))"
  "pitch_time (post_hit r d g) = pitch_time g"
  by (simp_all add: post_hit_def Let_def bounce_def judge_def before_bounce_def split: prod.split)

lemma retire_flight:
  "ball_hit (retire g) = ball_hit g" "ball_bounced (retire g) = ball_bounced g"
  "length (bodies (retire g)) \<le> length (bodies g)"
  "pitch_time (retire g) \<and> \<not> pitch_time g \<longrightarrow> ball_hit g"
  by (simp_all add: retire_def Let_def)

text \<open>After a tick the flag is as the bounce block left it, or the flight has ended.\<close>

lemma update_state_flag:
  assumes "ball_hit g" "1 < length (bodies g)"
  shows "ball_hit (update_state Mat4_inverse r d g) \<and>
           ball_bounced (update_state Mat4_inverse r d g) =
             ball_bounced (bounce (before_bounce r d g)) \<or>
         \<not> ball_hit (update_state Mat4_inverse r d g) \<and>
           \<not> ball_bounced (update_state Mat4_inverse r d g) \<and>
           length (bodies (update_state Mat4_inverse r d g)) < length (bodies g)"
proof -
  define g2 where "g2 = post_hit r d g"
  define g3 where "g3 = retire g2"
  have h2: "ball_hit g2" "ball_bounced g2 = ball_bounced (bounce (before_bounce r d g))"
    "length (bodies g2) = length (bodies g)"
    using assms(1) by (simp_all add: g2_def post_hit_score_events bounce_ball_hit
        before_bounce_fields post_hit_bounced post_hit_length)
  have h3: "ball_hit g3" "ball_bounced g3 = ball_bounced (bounce (before_bounce r d g))"
    "length (bodies g3) \<le> length (bodies g)"
    using h2 retire_flight [of g2] by (simp_all add: g3_def)
  have u: "update_state Mat4_inverse r d g =
     (if length (bodies g3) < 2 then clear_flags g3
      else if stopped (bodies g2 ! 1) then (clear_flags g3)\<lparr>bodies := butlast (bodies g3)\<rparr>
      else g3)"
    by (simp add: update_state_hit [OF assms] Let_def g2_def g3_def)
  show ?thesis
    using h3 assms(2) by (auto simp: u clear_flags_def)
qed

lemma update_state_flight_ok:
  assumes "flight_ok g"
  shows "flight_ok (update_state Mat4_inverse r d g)"
proof -
  define g1 where "g1 = detect_collisions Mat4_inverse g"
  define g2 where "g2 = (if ball_hit g1 then post_hit r d g1 else g1)"
  define g3 where "g3 = retire g2"
  have 1: "flight_ok g1"
    using assms detect_collisions_flight [where g = g and Mat4_inverse = Mat4_inverse]
    by (simp add: g1_def flight_ok_def)
  have 2: "ball_bounced g2 \<longrightarrow> ball_hit g2"
    using 1 by (auto simp: g2_def flight_ok_def post_hit_score_events bounce_ball_hit
        before_bounce_fields)
  have 3: "ball_bounced g3 \<longrightarrow> ball_hit g3"
    using 2 by (simp add: g3_def retire_flight)
  have u: "update_state Mat4_inverse r d g =
     (if 1 < length (bodies g1)
      then if length (bodies g3) < 2 then clear_flags g3
           else if stopped (bodies g2 ! 1) then (clear_flags g3)\<lparr>bodies := butlast (bodies g3)\<rparr>
           else g3
      else g1)"
    by (simp add: update_state_def Let_def g1_def g2_def g3_def)
  show ?thesis
    using 1 3 by (auto simp: u flight_ok_def clear_flags_def)
qed

lemma flight_ok_tick:
  "flight_ok g \<Longrightarrow> flight_ok (clock_tick ft (step_bodies Mat4_inverse rnd g))"
proof -
  assume "flight_ok g"
  then have "flight_ok (update_state Mat4_inverse (rnd (steps_taken g)) (dt g) g)"
    by (rule update_state_flight_ok)
  then show ?thesis
    by (simp add: flight_ok_def clock_tick_def step_bodies_def Let_def)
qed

lemma simulate_flight_ok:
  assumes "simulate Mat4_inverse rnd ft g = Some g'" "flight_ok g"
  shows "flight_ok g'"
proof -
  define g1 where "g1 = g\<lparr>time_accumulator := time_accumulator g + min (time_scale g * ft) 0.1\<rparr>"
  from assms(1) obtain g2 where g2:
    "stepping (step_bodies Mat4_inverse rnd) (time_scale g * ft) g1 = Some g2"
    "g' = g2\<lparr>bodies := map (blend_state (time_accumulator g2 / dt g2)) (bodies g2)\<rparr>"
    by (auto simp: simulate_def Let_def g1_def split: option.splits)
  have "flight_ok g1" using assms(2) by (simp add: g1_def flight_ok_def)
  with stepping_invariant [OF g2(1), of flight_ok] flight_ok_tick have "flight_ok g2" by blast
  then show ?thesis by (simp add: g2(2) flight_ok_def)
qed

lemma title_screens_flight_ok:
  assumes "title_screens delta g = Some g'" "flight_ok g"
  shows "flight_ok g'"
proof -
  have tick: "\<And>ft g. flight_ok g \<Longrightarrow> flight_ok (clock_tick ft ((\<lambda>g. g) g))"
    by (simp add: flight_ok_def clock_tick_def)
  have loop: "\<And>g g'. title_balls_loop delta g = Some g' \<Longrightarrow> flight_ok g \<Longrightarrow> flight_ok g'"
  proof -
    fix g g' assume a: "title_balls_loop delta g = Some g'" and f: "flight_ok g"
    define g1 where "g1 = g\<lparr>time_accumulator := time_accumulator g + min (time_scale g * delta) 0.1\<rparr>"
    have s: "stepping (\<lambda>g. g) (time_scale g * delta) g1 = Some g'"
      using a by (simp add: title_balls_loop_def Let_def g1_def)
    have "flight_ok g1" using f by (simp add: g1_def flight_ok_def)
    with stepping_invariant [OF s, of flight_ok] tick show "flight_ok g'" by blast
  qed
  from assms show ?thesis
    by (auto simp: title_screens_def split: option.splits if_splits dest: loop)
qed

lemma check_flight_fields:
  "ball_bounced (lose_check l n g) = ball_bounced g" "ball_hit (lose_check l n g) = ball_hit g"
  "bodies (lose_check l n g) = bodies g"
  "ball_bounced (win_check l n g) = ball_bounced g" "ball_hit (win_check l n g) = ball_hit g"
  "bodies (win_check l n g) = bodies g"
  "ball_bounced (next_level_check l n p l' g) = ball_bounced g"
  "ball_hit (next_level_check l n p l' g) = ball_hit g"
  "bodies (next_level_check l n p l' g) = bodies g"
  "ball_bounced (target_check k n g) = ball_bounced g" "ball_hit (target_check k n g) = ball_hit g"
  "bodies (target_check k n g) = bodies g"
  by (simp_all add: lose_check_def win_check_def next_level_check_def target_check_def)

lemma in_play_flight_ok:
  assumes "flight_ok g"
  shows "flight_ok (track_bat f (throw_pitch f (pitch_timing f (push_bat f
           (target_update (level_progress g))))))"
proof -
  define g1 where "g1 = target_update (level_progress g)"
  have 1: "ball_bounced g1 = ball_bounced g" "ball_hit g1 = ball_hit g" "bodies g1 = bodies g"
    by (simp_all add: g1_def target_update_def level_progress_def check_flight_fields)
  have "flight_ok g1" using assms 1 by (simp add: flight_ok_def)
  then show ?thesis
    unfolding g1_def [symmetric]
    by (auto simp: flight_ok_def track_bat_def throw_pitch_def pitch_timing_def push_bat_def)
qed

lemma display_flight_ok:
  assumes "display Mat4_inverse f g = Some g'" "flight_ok g"
  shows "flight_ok g'"
proof -
  from assms(1) obtain g1 where g1: "title_screens (animation_delta_time f) g = Some g1"
    "simulate Mat4_inverse (random_tick f) (animation_delta_time f)
       (track_bat f (throw_pitch f (pitch_timing f (push_bat f
          (target_update (level_progress g1)))))) = Some g'"
    by (auto simp: display_def split: option.splits)
  from title_screens_flight_ok [OF g1(1) assms(2)] have "flight_ok g1" .
  then have "flight_ok (track_bat f (throw_pitch f (pitch_timing f (push_bat f
          (target_update (level_progress g1))))))" by (rule in_play_flight_ok)
  with g1(2) show ?thesis by (rule simulate_flight_ok)
qed

lemma reachable_flight_ok:
  "reachable Mat4_inverse sphere_points g \<Longrightarrow> flight_ok g"
proof (induction rule: reachable.induct)
  case constructed
  show ?case by (simp add: flight_ok_def initial_def)
next
  case (start_pressed g)
  then show ?case by (simp add: flight_ok_def start_game_def)
next
  case (restart_pressed g)
  then show ?case by (simp add: flight_ok_def restart_game_def)
next
  case (home_run_pressed g)
  then show ?case by (simp add: flight_ok_def home_run_key_def)
next
  case (frame_drawn g f g')
  then show ?case using display_flight_ok by blast
qed

subsection \<open>One pitch, hit at once, until the next pitch is due\<close>

text \<open>
  The frames of a started game in which nothing is decided: the level progression and
  the target leave the state alone, so a frame is the handling of the bodies and
  \<open>simulate\<close>.
\<close>

lemma level_progress_idle:
  assumes "pitch_count g = 9"
  shows "level_progress g = g"
  using assms by (simp add: level_progress_def lose_check_def next_level_check_def win_check_def)

lemma target_update_one:
  assumes "current_game_level g = game_level_one"
  shows "target_update g = g"
  using assms
  by (simp add: target_update_def target_check_def game_level_one_def to_number_def)

lemma display_in_play:
  assumes "in_play g"
  shows "display Mat4_inverse f g =
    simulate Mat4_inverse (random_tick f) (animation_delta_time f)
      (track_bat f (throw_pitch f (pitch_timing f (push_bat f g))))"
  using assms
  by (simp add: display_def title_screens_def in_play_def level_progress_idle target_update_one)

text \<open>The bat is placed at \<open>(0, 1, 0)\<close> by every frame of \<open>frame_at\<close>.\<close>

lemma bat_center:
  "to3 (Mat_times_vec (bat_location (frame_at a d)) (0, 0, 0, 1)) = (0, 1, 0)"
  by (simp add: bat_location_def frame_at_def Mat4_rotation_def Mat_row_times_def Let_def
      Vec_norm_def)

lemma emplace_fields:
  "center (emplace b m lv av axis) = to3 (Mat_times_vec m (0, 0, 0, 1))"
  "linear_velocity (emplace b m lv av axis) = lv"
  "shape (emplace b m lv av axis) = shape b"
  by (simp_all add: emplace_def Let_def)

lemma advance_fields:
  "center (advance d b) = Vec_plus (center b) (Vec_times (linear_velocity b) d)"
  "linear_velocity (advance d b) = linear_velocity b"
  "shape (advance d b) = shape b"
  by (simp_all add: advance_def)

lemma blend_state_fields:
  "center (blend_state al b) = center b"
  "linear_velocity (blend_state al b) = linear_velocity b"
  "shape (blend_state al b) = shape b"
  by (simp_all add: blend_state_def)

lemma in_play_upd:
  "in_play (g\<lparr>time_accumulator := a\<rparr>) = in_play g"
  "in_play (g\<lparr>bodies := bs\<rparr>) = in_play g"
  "in_play (g\<lparr>pitch_time := p\<rparr>) = in_play g"
  "in_play (g\<lparr>pitch_timer := tm\<rparr>) = in_play g"
  "in_play (g\<lparr>events := ev\<rparr>) = in_play g"
  "in_play (g\<lparr>ball_hit := h\<rparr>) = in_play g"
  "in_play (g\<lparr>ball_bounced := h\<rparr>) = in_play g"
  "in_play (clock_tick ft g) = in_play g"
  by (simp_all add: in_play_def clock_tick_def)

lemma in_flight_acc: "in_flight (g\<lparr>time_accumulator := a\<rparr>) s = in_flight g s"
  by (simp add: in_flight_def in_play_upd)

lemma in_flight_clock: "in_flight (clock_tick ft g) s = in_flight g s"
  by (simp add: in_flight_def in_play_upd) (simp add: clock_tick_def)

lemma in_flight_blend:
  assumes "in_flight g s"
  shows "in_flight (g\<lparr>bodies := map (blend_state al) (bodies g)\<rparr>) s"
proof -
  from assms obtain b0 b1 where b: "bodies g = [b0, b1]" "shape b0 = cylinder" "shape b1 = ball_4"
    "center b0 = (0, 1, 0)" "linear_velocity b0 = (0, 0, 0)" "(center b1, linear_velocity b1) = s"
    by (auto simp: in_flight_def)
  from assms have r: "in_play g" "ball_hit g" "pitch_timer g = 0" by (simp_all add: in_flight_def)
  show ?thesis
    using b r by (simp add: in_flight_def in_play_upd blend_state_fields)
qed

lemma in_flight_track_bat:
  assumes "in_flight g s"
  shows "in_flight (track_bat (frame_at a d) g) s"
proof -
  from assms obtain b0 b1 where b: "bodies g = [b0, b1]" "shape b0 = cylinder" "shape b1 = ball_4"
    "center b0 = (0, 1, 0)" "linear_velocity b0 = (0, 0, 0)" "(center b1, linear_velocity b1) = s"
    by (auto simp: in_flight_def)
  from assms have r: "in_play g" "ball_hit g" "pitch_timer g = 0" by (simp_all add: in_flight_def)
  have "track_bat (frame_at a d) g =
      g\<lparr>bodies := [emplace b0 (bat_location (frame_at a d)) (0, 0, 0) 0 (0, 0, 1), b1]\<rparr>"
    using b by (simp add: track_bat_def enumerate_eq_zip upt_rec [of 0] upt_rec [of 1])
      (simp add: frame_at_def)
  then show ?thesis
    using b r by (simp add: in_flight_def in_play_upd emplace_fields bat_center)
qed

text \<open>
  A tick of a hit ball that is \<open>airborne\<close>: no bounce, nothing is filtered, the ball is
  not slow. The tick raises \<open>pitch_time\<close> and moves the ball as \<open>flight_tick\<close> says.
\<close>

lemma update_state_airborne:
  assumes "ball_hit g" "bodies g = [b0, b1]" "center b0 = (0, 1, 0)"
    "center b1 = (x, y, z)" "linear_velocity b1 = (vx, vy, vz)"
    "airborne ((x, y, z), (vx, vy, vz))"
  shows "\<exists>ev. update_state Mat4_inverse (99 / 100) (1 / 20) g =
     g\<lparr>bodies := [b0, gravity (1 / 20) (launch (99 / 100) b1)], pitch_time := True, events := ev\<rparr>"
proof -
  define b2 where "b2 = gravity (1 / 20) (launch (99 / 100) b1)"
  have c2: "center b2 = (x, y, z)"
    using assms(4,5) by (simp add: b2_def gravity_def launch_def split: prod.split)
  have v2: "linear_velocity b2 = snd (flight_tick ((x, y, z), (vx, vy, vz)))"
    using assms(4,5) by (simp add: b2_def gravity_def launch_def flight_tick_def)
  have y: "- 97 / 10 \<le> y" and n: "x * x + y * y + z * z < 90000"
    and vx2: "1 / 2 \<le> \<bar>fst (snd (flight_tick ((x, y, z), (vx, vy, vz))))\<bar>"
    using assms(6) by simp_all
  have bb: "before_bounce (99 / 100) (1 / 20) g = g\<lparr>bodies := [b0, b2]\<rparr>"
    by (simp add: before_bounce_def assms(2) b2_def)
  have nf: "\<not> falls_through_floor b2"
    using y c2 by (simp add: falls_through_floor_def split: prod.split)
  have bo: "bounce (g\<lparr>bodies := [b0, b2]\<rparr>) = g\<lparr>bodies := [b0, b2]\<rparr>"
    using nf by (simp add: bounce_def)
  have cr: "come_to_rest b2 = b2"
    using y c2 by (simp add: come_to_rest_def split: prod.split)
  have ph: "post_hit (99 / 100) (1 / 20) g = g\<lparr>bodies := [b0, b2]\<rparr>"
    by (simp add: post_hit_def Let_def bb bo cr)
  have n0: "Vec_norm (center b0) < 300" by (simp add: assms(3) Vec_norm_less)
  have n2: "Vec_norm (center b2) < 300" using n by (simp add: c2 Vec_norm_less)
  have ns: "\<not> stopped b2"
  proof -
    from vx2 have "1 / 2 \<le> \<bar>fst (linear_velocity b2)\<bar>" by (simp only: v2)
    then show ?thesis by (cases "linear_velocity b2") (simp add: stopped_def)
  qed
  have k: "filter (\<lambda>b. Vec_norm (center b) < 300) [b0, b2] = [b0, b2]"
    using n0 n2 by simp
  define ev where "ev = events g @
      map (\<lambda>b. camera_decrease) (filter (\<lambda>b. Vec_norm (center b) < 90) [b0, b2])"
  have ev: "retire (g\<lparr>bodies := [b0, b2]\<rparr>) =
      g\<lparr>bodies := [b0, b2], pitch_time := True, events := ev\<rparr>"
    using assms(1) n0 by (simp add: retire_def Let_def k ev_def del: filter.simps)
  have len: "1 < length (bodies g)" by (simp add: assms(2))
  have "update_state Mat4_inverse (99 / 100) (1 / 20) g =
      g\<lparr>bodies := [b0, b2], pitch_time := True, events := ev\<rparr>"
    using ns by (simp add: update_state_hit [OF assms(1) len] Let_def ph ev)
  then show ?thesis unfolding b2_def by blast
qed

lemma tick_in_flight:
  assumes "in_flight g s" "airborne s"
  shows "in_flight (step_bodies Mat4_inverse (\<lambda>k. 99 / 100) g) (flight_tick s)"
proof -
  from assms(1) obtain b0 b1 where b: "bodies g = [b0, b1]" "shape b0 = cylinder"
    "shape b1 = ball_4" "center b0 = (0, 1, 0)" "linear_velocity b0 = (0, 0, 0)"
    "(center b1, linear_velocity b1) = s"
    by (auto simp: in_flight_def)
  from assms(1) have r: "in_play g" "ball_hit g" "pitch_timer g = 0"
    by (simp_all add: in_flight_def)
  obtain x y z where c: "center b1 = (x, y, z)" by (cases "center b1")
  obtain vx vy vz where v: "linear_velocity b1 = (vx, vy, vz)" by (cases "linear_velocity b1")
  from b(6) c v have s: "s = ((x, y, z), (vx, vy, vz))" by simp
  from r(1) have d: "dt g = 1 / 20" by (simp add: in_play_def)
  define b2 where "b2 = gravity (1 / 20) (launch (99 / 100) b1)"
  from update_state_airborne [OF r(2) b(1) b(4) c v assms(2) [unfolded s]]
  obtain ev where u: "update_state Mat4_inverse (99 / 100) (1 / 20) g =
      g\<lparr>bodies := [b0, b2], pitch_time := True, events := ev\<rparr>"
    unfolding b2_def by blast
  have st: "step_bodies Mat4_inverse (\<lambda>k. 99 / 100) g =
      g\<lparr>bodies := [advance (1 / 20) b0, advance (1 / 20) b2], pitch_time := True, events := ev\<rparr>"
    by (simp only: step_bodies_def d u Let_def) (simp add: d)
  have b2: "shape b2 = ball_4"
    "(center (advance (1 / 20) b2), linear_velocity (advance (1 / 20) b2)) = flight_tick s"
    using c v b(3)
    by (simp_all add: b2_def s gravity_def launch_def advance_fields flight_tick_def)
  show ?thesis
    unfolding st using b r b2
    by (simp add: in_flight_def in_play_upd advance_fields)
qed

text \<open>
  With an empty accumulator and a frame time of at least a tenth of a second, \<open>simulate\<close>
  takes exactly two steps and returns with the accumulator empty again.
\<close>

lemma stepping_two:
  assumes w: "\<And>g. same_rules g (work g) \<and> same_clock g (work g)"
    and "dt g = 1 / 20" "time_accumulator g = 1 / 10" "0 < ft"
  shows "stepping work ft g = Some (clock_tick ft (work (clock_tick ft (work g))))"
proof -
  define g1 where "g1 = clock_tick ft (work g)"
  define g2 where "g2 = clock_tick ft (work g1)"
  have 1: "dt g1 = 1 / 20" "time_accumulator g1 = 1 / 20"
    using w [of g] assms(2-4) by (simp_all add: g1_def clock_tick_def same_rules_def same_clock_def)
  have 2: "dt g2 = 1 / 20" "time_accumulator g2 = 0"
    using w [of g1] 1 assms(4)
    by (simp_all add: g2_def clock_tick_def same_rules_def same_clock_def)
  have "stepping work ft g = stepping work ft g1"
    unfolding g1_def by (rule stepping_step) (simp add: assms)
  also have "\<dots> = stepping work ft g2"
    unfolding g2_def by (rule stepping_step) (simp add: 1)
  also have "\<dots> = Some g2"
    by (rule stepping_stop) (simp add: 2)
  finally show ?thesis by (simp add: g2_def g1_def)
qed

lemma simulate_two:
  assumes "time_accumulator g = 0" "dt g = 1 / 20" "time_scale g = 1" "1 / 10 \<le> d"
  shows "\<exists>g1 g2. g1 = clock_tick d (step_bodies Mat4_inverse rnd (g\<lparr>time_accumulator := 1 / 10\<rparr>)) \<and>
    g2 = clock_tick d (step_bodies Mat4_inverse rnd g1) \<and>
    simulate Mat4_inverse rnd d g = Some (g2\<lparr>bodies := map (blend_state 0) (bodies g2)\<rparr>) \<and>
    time_accumulator g2 = 0 \<and> t g2 = t g + 1 / 10"
proof -
  define g0 where "g0 = g\<lparr>time_accumulator := 1 / 10\<rparr>"
  define g1 where "g1 = clock_tick d (step_bodies Mat4_inverse rnd g0)"
  define g2 where "g2 = clock_tick d (step_bodies Mat4_inverse rnd g1)"
  have d: "0 < d" "min d (1 / 10) = 1 / 10" using assms(4) by simp_all
  have 0: "dt g0 = 1 / 20" "time_accumulator g0 = 1 / 10" "t g0 = t g"
    using assms by (simp_all add: g0_def)
  have s: "stepping (step_bodies Mat4_inverse rnd) d g0 = Some g2"
    unfolding g2_def g1_def
    by (rule stepping_two [OF same_step_bodies 0(1,2) d(1)])
  have 1: "dt g1 = 1 / 20" "time_accumulator g1 = 1 / 20" "t g1 = t g + 1 / 20"
    using same_step_bodies [of g0 Mat4_inverse rnd] 0 d(1)
    by (simp_all add: g1_def clock_tick_def same_rules_def same_clock_def)
  have 2: "dt g2 = 1 / 20" "time_accumulator g2 = 0" "t g2 = t g + 1 / 10"
    using same_step_bodies [of g1 Mat4_inverse rnd] 1 d(1)
    by (simp_all add: g2_def clock_tick_def same_rules_def same_clock_def)
  have "simulate Mat4_inverse rnd d g = Some (g2\<lparr>bodies := map (blend_state 0) (bodies g2)\<rparr>)"
    using assms(1,3) d(2) s 2(1,2) by (simp add: simulate_def Let_def g0_def)
  with 2 show ?thesis unfolding g2_def g1_def g0_def by blast
qed

lemma simulate_in_flight:
  assumes "in_flight g s" "time_accumulator g = 0" "airborne s" "airborne (flight_tick s)"
    "1 / 10 \<le> d"
  shows "\<exists>g'. simulate Mat4_inverse (\<lambda>k. 99 / 100) d g = Some g' \<and>
    in_flight g' (flight_tick (flight_tick s)) \<and> time_accumulator g' = 0 \<and> t g' = t g + 1 / 10"
proof -
  from assms(1) have p: "dt g = 1 / 20" "time_scale g = 1"
    by (simp_all add: in_flight_def in_play_def)
  from simulate_two [OF assms(2) p assms(5), of Mat4_inverse "\<lambda>k. 99 / 100"]
  obtain g1 g2 where
    g1: "g1 = clock_tick d (step_bodies Mat4_inverse (\<lambda>k. 99 / 100) (g\<lparr>time_accumulator := 1 / 10\<rparr>))"
    and g2: "g2 = clock_tick d (step_bodies Mat4_inverse (\<lambda>k. 99 / 100) g1)"
    and s: "simulate Mat4_inverse (\<lambda>k. 99 / 100) d g =
      Some (g2\<lparr>bodies := map (blend_state 0) (bodies g2)\<rparr>)"
    and c: "time_accumulator g2 = 0" "t g2 = t g + 1 / 10"
    by blast
  have "in_flight (g\<lparr>time_accumulator := 1 / 10\<rparr>) s"
    using assms(1) by (simp add: in_flight_acc)
  then have "in_flight g1 (flight_tick s)"
    unfolding g1 in_flight_clock using assms(3) by (rule tick_in_flight)
  then have "in_flight g2 (flight_tick (flight_tick s))"
    unfolding g2 in_flight_clock using assms(4) by (rule tick_in_flight)
  then have "in_flight (g2\<lparr>bodies := map (blend_state 0) (bodies g2)\<rparr>) (flight_tick (flight_tick s))"
    by (rule in_flight_blend)
  with s c show ?thesis by simp
qed

text \<open>
  The tick that finds the hit ball at 300 or more from the origin removes it, clears the
  flags and leaves \<open>pitch_time\<close> raised; ticks with the bat alone change nothing that
  matters here.
\<close>

lemma waiting_acc: "waiting (g\<lparr>time_accumulator := a\<rparr>) p tm = waiting g p tm"
  by (simp add: waiting_def in_play_upd)

lemma waiting_clock: "waiting (clock_tick ft g) p tm = waiting g p tm"
  by (simp add: waiting_def in_play_upd) (simp add: clock_tick_def)

lemma waiting_blend:
  assumes "waiting g p tm"
  shows "waiting (g\<lparr>bodies := map (blend_state al) (bodies g)\<rparr>) p tm"
proof -
  from assms obtain b0 where b: "bodies g = [b0]" "shape b0 = cylinder"
    "center b0 = (0, 1, 0)" "linear_velocity b0 = (0, 0, 0)"
    by (auto simp: waiting_def)
  from assms have r: "in_play g" "\<not> ball_hit g" "pitch_time g = p" "pitch_timer g = tm"
    by (simp_all add: waiting_def)
  show ?thesis
    using b r by (simp add: waiting_def in_play_upd blend_state_fields)
qed

lemma waiting_track_bat:
  assumes "waiting g p tm"
  shows "waiting (track_bat (frame_at a d) g) p tm"
proof -
  from assms obtain b0 where b: "bodies g = [b0]" "shape b0 = cylinder"
    "center b0 = (0, 1, 0)" "linear_velocity b0 = (0, 0, 0)"
    by (auto simp: waiting_def)
  from assms have r: "in_play g" "\<not> ball_hit g" "pitch_time g = p" "pitch_timer g = tm"
    by (simp_all add: waiting_def)
  have "track_bat (frame_at a d) g =
      g\<lparr>bodies := [emplace b0 (bat_location (frame_at a d)) (0, 0, 0) 0 (0, 0, 1)]\<rparr>"
    using b by (simp add: track_bat_def enumerate_eq_zip upt_rec [of 0])
      (simp add: frame_at_def)
  then show ?thesis
    using b r by (simp add: waiting_def in_play_upd emplace_fields bat_center)
qed

lemma tick_waiting:
  assumes "waiting g p tm"
  shows "waiting (step_bodies Mat4_inverse rnd g) p tm"
proof -
  from assms obtain b0 where b: "bodies g = [b0]" "shape b0 = cylinder"
    "center b0 = (0, 1, 0)" "linear_velocity b0 = (0, 0, 0)"
    by (auto simp: waiting_def)
  from assms have r: "in_play g" "\<not> ball_hit g" "pitch_time g = p" "pitch_timer g = tm"
    by (simp_all add: waiting_def)
  define b1 where "b1 = b0\<lparr>body_inverse := Some (Mat4_inverse (drawn_location b0)),
    material := baseball\<rparr>"
  have dc: "detect_collisions Mat4_inverse g = g\<lparr>bodies := [b1]\<rparr>"
    using r(2) b(1)
    by (simp add: detect_collisions_def Let_def check_if_colliding_def b1_def)
  have u: "update_state Mat4_inverse (rnd (steps_taken g)) (dt g) g = g\<lparr>bodies := [b1]\<rparr>"
    by (simp add: update_state_def Let_def dc)
  have st: "step_bodies Mat4_inverse rnd g = g\<lparr>bodies := [advance (dt g) b1]\<rparr>"
    by (simp add: step_bodies_def Let_def u)
  show ?thesis
    unfolding st using b r by (simp add: waiting_def in_play_upd advance_fields b1_def)
qed

lemma tick_retire:
  assumes "in_flight g s" "out_of_range s"
  shows "waiting (step_bodies Mat4_inverse (\<lambda>k. 99 / 100) g) True 0"
proof -
  from assms(1) obtain b0 b1 where b: "bodies g = [b0, b1]" "shape b0 = cylinder"
    "shape b1 = ball_4" "center b0 = (0, 1, 0)" "linear_velocity b0 = (0, 0, 0)"
    "(center b1, linear_velocity b1) = s"
    by (auto simp: in_flight_def)
  from assms(1) have r: "in_play g" "ball_hit g" "pitch_timer g = 0"
    by (simp_all add: in_flight_def)
  obtain x y z where c: "center b1 = (x, y, z)" by (cases "center b1")
  from b(6) c assms(2) have y: "- 97 / 10 \<le> y" and n: "90000 \<le> x * x + y * y + z * z"
    by auto
  from r(1) have d: "dt g = 1 / 20" by (simp add: in_play_def)
  define b2 where "b2 = gravity (1 / 20) (launch (99 / 100) b1)"
  have c2: "center b2 = (x, y, z)"
    using c by (simp add: b2_def gravity_def launch_def split: prod.split)
  have bb: "before_bounce (99 / 100) (1 / 20) g = g\<lparr>bodies := [b0, b2]\<rparr>"
    by (simp add: before_bounce_def b(1) b2_def)
  have nf: "\<not> falls_through_floor b2"
    using y c2 by (simp add: falls_through_floor_def split: prod.split)
  have bo: "bounce (g\<lparr>bodies := [b0, b2]\<rparr>) = g\<lparr>bodies := [b0, b2]\<rparr>"
    using nf by (simp add: bounce_def)
  have cr: "come_to_rest b2 = b2"
    using y c2 by (simp add: come_to_rest_def split: prod.split)
  have ph: "post_hit (99 / 100) (1 / 20) g = g\<lparr>bodies := [b0, b2]\<rparr>"
    by (simp add: post_hit_def Let_def bb bo cr)
  have n0: "Vec_norm (center b0) < 300" by (simp add: b(4) Vec_norm_less)
  have n2: "\<not> Vec_norm (center b2) < 300" using n by (simp add: c2 Vec_norm_less)
  have k: "filter (\<lambda>b. Vec_norm (center b) < 300) [b0, b2] = [b0]"
    using n0 n2 by simp
  define ev where "ev = events g @
      map (\<lambda>b. camera_decrease) (filter (\<lambda>b. Vec_norm (center b) < 90) [b0])"
  have rt: "retire (g\<lparr>bodies := [b0, b2]\<rparr>) =
      g\<lparr>bodies := [b0], pitch_time := True, events := ev\<rparr>"
    using r(2) n0 by (simp add: retire_def Let_def k ev_def del: filter.simps)
  have len: "1 < length (bodies g)" by (simp add: b(1))
  have u: "update_state Mat4_inverse (99 / 100) (1 / 20) g =
      g\<lparr>bodies := [b0], pitch_time := True, events := ev, ball_hit := False,
        ball_bounced := False\<rparr>"
    by (simp add: update_state_hit [OF r(2) len] Let_def ph rt clear_flags_def)
  have st: "step_bodies Mat4_inverse (\<lambda>k. 99 / 100) g =
      g\<lparr>bodies := [advance (1 / 20) b0], pitch_time := True, events := ev, ball_hit := False,
        ball_bounced := False\<rparr>"
    by (simp only: step_bodies_def d u Let_def) (simp add: d)
  show ?thesis
    unfolding st using b r by (simp add: waiting_def in_play_upd advance_fields)
qed

lemma simulate_retire:
  assumes "in_flight g s" "time_accumulator g = 0" "out_of_range s" "1 / 10 \<le> d"
  shows "\<exists>g'. simulate Mat4_inverse (\<lambda>k. 99 / 100) d g = Some g' \<and>
    waiting g' True 0 \<and> time_accumulator g' = 0 \<and> t g' = t g + 1 / 10"
proof -
  from assms(1) have p: "dt g = 1 / 20" "time_scale g = 1"
    by (simp_all add: in_flight_def in_play_def)
  from simulate_two [OF assms(2) p assms(4), of Mat4_inverse "\<lambda>k. 99 / 100"]
  obtain g1 g2 where
    g1: "g1 = clock_tick d (step_bodies Mat4_inverse (\<lambda>k. 99 / 100) (g\<lparr>time_accumulator := 1 / 10\<rparr>))"
    and g2: "g2 = clock_tick d (step_bodies Mat4_inverse (\<lambda>k. 99 / 100) g1)"
    and s: "simulate Mat4_inverse (\<lambda>k. 99 / 100) d g =
      Some (g2\<lparr>bodies := map (blend_state 0) (bodies g2)\<rparr>)"
    and c: "time_accumulator g2 = 0" "t g2 = t g + 1 / 10"
    by blast
  have "in_flight (g\<lparr>time_accumulator := 1 / 10\<rparr>) s"
    using assms(1) by (simp add: in_flight_acc)
  then have "waiting g1 True 0"
    unfolding g1 waiting_clock using assms(3) by (rule tick_retire)
  then have "waiting g2 True 0"
    unfolding g2 waiting_clock by (rule tick_waiting)
  then have "waiting (g2\<lparr>bodies := map (blend_state 0) (bodies g2)\<rparr>) True 0"
    by (rule waiting_blend)
  with s c show ?thesis by simp
qed

lemma simulate_waiting:
  assumes "waiting g p tm" "time_accumulator g = 0" "1 / 10 \<le> d"
  shows "\<exists>g'. simulate Mat4_inverse rnd d g = Some g' \<and>
    waiting g' p tm \<and> time_accumulator g' = 0 \<and> t g' = t g + 1 / 10"
proof -
  from assms(1) have q: "dt g = 1 / 20" "time_scale g = 1"
    by (simp_all add: waiting_def in_play_def)
  from simulate_two [OF assms(2) q assms(3), of Mat4_inverse rnd]
  obtain g1 g2 where
    g1: "g1 = clock_tick d (step_bodies Mat4_inverse rnd (g\<lparr>time_accumulator := 1 / 10\<rparr>))"
    and g2: "g2 = clock_tick d (step_bodies Mat4_inverse rnd g1)"
    and s: "simulate Mat4_inverse rnd d g =
      Some (g2\<lparr>bodies := map (blend_state 0) (bodies g2)\<rparr>)"
    and c: "time_accumulator g2 = 0" "t g2 = t g + 1 / 10"
    by blast
  have "waiting (g\<lparr>time_accumulator := 1 / 10\<rparr>) p tm"
    using assms(1) by (simp add: waiting_acc)
  then have "waiting g1 p tm"
    unfolding g1 waiting_clock by (rule tick_waiting)
  then have "waiting g2 p tm"
    unfolding g2 waiting_clock by (rule tick_waiting)
  then have "waiting (g2\<lparr>bodies := map (blend_state 0) (bodies g2)\<rparr>) p tm"
    by (rule waiting_blend)
  with s c show ?thesis by simp
qed

text \<open>The frames, and runs of them.\<close>

lemma track_bat_clock:
  "time_accumulator (track_bat f g) = time_accumulator g" "t (track_bat f g) = t g"
  by (simp_all add: track_bat_def)

lemma frame_at_fields:
  "animation_time (frame_at a d) = a" "animation_delta_time (frame_at a d) = d"
  "random_tick (frame_at a d) = (\<lambda>k. 99 / 100)"
  by (simp_all add: frame_at_def)

lemma display_flight:
  assumes "in_flight g s" "time_accumulator g = 0" "airborne s" "airborne (flight_tick s)"
    "1 / 10 \<le> d"
  shows "\<exists>g'. display Mat4_inverse (frame_at a d) g = Some g' \<and>
    in_flight g' (flight_tick (flight_tick s)) \<and> time_accumulator g' = 0 \<and> t g' = t g + 1 / 10"
proof -
  from assms(1) have p: "in_play g" and l: "length (bodies g) = 2"
    by (auto simp: in_flight_def)
  have 1: "throw_pitch (frame_at a d) (pitch_timing (frame_at a d) (push_bat (frame_at a d) g)) = g"
    using l by (simp add: push_bat_def pitch_timing_def throw_pitch_def pitch_due_def)
  have 2: "in_flight (track_bat (frame_at a d) g) s"
    using assms(1) by (rule in_flight_track_bat)
  from simulate_in_flight [OF 2 _ assms(3,4,5), of Mat4_inverse] assms(2)
  show ?thesis
    by (simp add: display_in_play [OF p] 1 frame_at_fields track_bat_clock)
qed

lemma display_retire:
  assumes "in_flight g s" "time_accumulator g = 0" "out_of_range s" "1 / 10 \<le> d"
  shows "\<exists>g'. display Mat4_inverse (frame_at a d) g = Some g' \<and>
    waiting g' True 0 \<and> time_accumulator g' = 0 \<and> t g' = t g + 1 / 10"
proof -
  from assms(1) have p: "in_play g" and l: "length (bodies g) = 2"
    by (auto simp: in_flight_def)
  have 1: "throw_pitch (frame_at a d) (pitch_timing (frame_at a d) (push_bat (frame_at a d) g)) = g"
    using l by (simp add: push_bat_def pitch_timing_def throw_pitch_def pitch_due_def)
  have 2: "in_flight (track_bat (frame_at a d) g) s"
    using assms(1) by (rule in_flight_track_bat)
  from simulate_retire [OF 2 _ assms(3,4), of Mat4_inverse] assms(2)
  show ?thesis
    by (simp add: display_in_play [OF p] 1 frame_at_fields track_bat_clock)
qed

lemma display_waiting:
  assumes "waiting g p tm" "time_accumulator g = 0" "1 / 10 \<le> d"
    "a / 1000 \<le> (if p then a / 1000 else tm) + 2"
  shows "\<exists>g'. display Mat4_inverse (frame_at a d) g = Some g' \<and>
    waiting g' False (if p then a / 1000 else tm) \<and> time_accumulator g' = 0 \<and>
    t g' = t g + 1 / 10"
proof -
  from assms(1) have q: "in_play g" and l: "length (bodies g) = 1"
    and r: "pitch_time g = p" "pitch_timer g = tm"
    by (auto simp: waiting_def)
  define g1 where "g1 = pitch_timing (frame_at a d) g"
  have w1: "waiting g1 False (if p then a / 1000 else tm)"
    using assms(1) l r
    by (simp add: g1_def pitch_timing_def frame_at_fields waiting_def in_play_upd)
  have c1: "time_accumulator g1 = time_accumulator g" "t g1 = t g"
    by (simp_all add: g1_def pitch_timing_def)
  from w1 have t1: "pitch_timer g1 = (if p then a / 1000 else tm)" by (simp add: waiting_def)
  have 1: "throw_pitch (frame_at a d) (pitch_timing (frame_at a d) (push_bat (frame_at a d) g)) = g1"
    using l assms(4) t1
    by (simp add: push_bat_def g1_def [symmetric] throw_pitch_def pitch_due_def frame_at_fields)
  have 2: "waiting (track_bat (frame_at a d) g1) False (if p then a / 1000 else tm)"
    using w1 by (rule waiting_track_bat)
  from simulate_waiting [OF 2 _ assms(3), of Mat4_inverse "\<lambda>k. 99 / 100"] assms(2) c1
  show ?thesis
    by (simp add: display_in_play [OF q] 1 frame_at_fields track_bat_clock)
qed

lemma play_flight:
  assumes "1 / 10 \<le> d"
  shows "in_flight g s \<Longrightarrow> time_accumulator g = 0 \<Longrightarrow> sky n s \<Longrightarrow>
    \<exists>g'. play Mat4_inverse (frames_from a d n) g = Some g' \<and>
      in_flight g' (fly n s) \<and> time_accumulator g' = 0 \<and> t g' = t g + real n / 10"
proof (induction n arbitrary: g s a)
  case 0
  then show ?case by simp
next
  case (Suc n)
  from Suc.prems(3) have a: "airborne s" "airborne (flight_tick s)"
    and k: "sky n (flight_tick (flight_tick s))" by simp_all
  from display_flight [OF Suc.prems(1,2) a assms, of Mat4_inverse a]
  obtain g1 where g1: "display Mat4_inverse (frame_at a d) g = Some g1"
    "in_flight g1 (flight_tick (flight_tick s))" "time_accumulator g1 = 0" "t g1 = t g + 1 / 10"
    by blast
  from Suc.IH [OF g1(2,3) k, of "a + d"]
  obtain g' where g': "play Mat4_inverse (frames_from (a + d) d n) g1 = Some g'"
    "in_flight g' (fly n (flight_tick (flight_tick s)))" "time_accumulator g' = 0"
    "t g' = t g1 + real n / 10"
    by blast
  from g1 g' show ?case by simp
qed

lemma play_waiting:
  assumes "1 / 10 \<le> d"
  shows "waiting g False tm \<Longrightarrow> time_accumulator g = 0 \<Longrightarrow>
    a + d * real n \<le> (tm + 2) * 1000 + d \<Longrightarrow>
    \<exists>g'. play Mat4_inverse (frames_from a d n) g = Some g' \<and>
      waiting g' False tm \<and> time_accumulator g' = 0 \<and> t g' = t g + real n / 10"
proof (induction n arbitrary: g a)
  case 0
  then show ?case by simp
next
  case (Suc n)
  have "0 \<le> d * real n" using assms by simp
  with Suc.prems(3) have b: "a / 1000 \<le> (if False then a / 1000 else tm) + 2"
    by (simp add: algebra_simps)
  from display_waiting [OF Suc.prems(1,2) assms b, of Mat4_inverse]
  obtain g1 where g1: "display Mat4_inverse (frame_at a d) g = Some g1"
    "waiting g1 False tm" "time_accumulator g1 = 0" "t g1 = t g + 1 / 10"
    by auto
  from Suc.prems(3) have c: "a + d + d * real n \<le> (tm + 2) * 1000 + d"
    by (simp add: algebra_simps)
  from Suc.IH [OF g1(2,3) c]
  obtain g' where g': "play Mat4_inverse (frames_from (a + d) d n) g1 = Some g'"
    "waiting g' False tm" "time_accumulator g' = 0" "t g' = t g1 + real n / 10"
    by blast
  from g1 g' show ?case by simp
qed

lemma sky_42:
  "sky 42 (flight_tick (flight_tick ((- 3, - 1, - 7), (2 / 5, 0, 17))))"
  by (simp add: eval_nat_numeral flight_tick_def)

lemma fly_42:
  "out_of_range (fly 42 (flight_tick (flight_tick ((- 3, - 1, - 7), (2 / 5, 0, 17)))))"
  by (simp add: eval_nat_numeral flight_tick_def)

lemma in_flight_fields:
  assumes "in_flight g s"
  shows "length (bodies g) = 2" "pitch_count g = 9" "current_game_state g = started"
  using assms by (auto simp: in_flight_def in_play_def)

lemma waiting_fields:
  assumes "waiting g p tm"
  shows "length (bodies g) = 1" "pitch_count g = 9" "current_game_state g = started"
    "pitch_timer g = tm" "pitch_time g = p"
  using assms by (auto simp: waiting_def in_play_def)

lemma example_pressed_fields:
  "bodies example_pressed = []" "pitch_count example_pressed = 10"
  "current_game_state example_pressed = started" "pitch_timer example_pressed = 0"
  "\<not> pitch_time example_pressed" "ball_hit example_pressed" "t example_pressed = 0"
  "time_accumulator example_pressed = 0" "dt example_pressed = 1 / 20"
  "time_scale example_pressed = 1" "current_game_level example_pressed = game_level_one"
  by (simp_all add: example_pressed_def home_run_key_def start_game_def initial_def)

lemma new_ball_frame_at:
  "center (new_ball (frame_at a d)) = (- 3, - 1, - 7)"
  "linear_velocity (new_ball (frame_at a d)) = (2 / 5, 0, 17)"
  "shape (new_ball (frame_at a d)) = ball_4"
  by (simp_all add: new_ball_def new_Body_def emplace_def Let_def frame_at_def getRandomInt_def
      Mat_row_times_def)

lemma display_first_pitch:
  "\<exists>g'. display Mat4_inverse (frame_at 3000 100) example_pressed = Some g' \<and>
     in_flight g' (flight_tick (flight_tick ((- 3, - 1, - 7), (2 / 5, 0, 17)))) \<and>
     time_accumulator g' = 0 \<and> t g' = 1 / 10"
proof -
  define f where "f = frame_at 3000 100"
  define bat0 where "bat0 = new_Body cylinder aluminum (0.08, 0.08, 0.4) (bat_location f) (0, 0, 0) 0
    (random_axis f 0)"
  define g0 where "g0 = example_pressed\<lparr>pitch_time := False, pitch_count := 9,
    bodies := [emplace bat0 (bat_location f) (0, 0, 0) 0 (random_axis f 2), new_ball f]\<rparr>"
  have lp: "level_progress example_pressed = example_pressed"
    by (simp add: level_progress_def lose_check_def next_level_check_def win_check_def
        example_pressed_fields)
  have tu: "target_update example_pressed = example_pressed"
    by (rule target_update_one) (rule example_pressed_fields)
  have sh: "shape bat0 = cylinder" by (simp add: bat0_def new_Body_def emplace_def Let_def)
  have nb: "shape (new_ball f) = ball_4" by (simp add: f_def new_ball_frame_at)
  have pb: "push_bat f example_pressed = example_pressed\<lparr>bodies := [bat0]\<rparr>"
    by (simp add: push_bat_def example_pressed_fields bat0_def)
  have pt: "pitch_timing f (example_pressed\<lparr>bodies := [bat0]\<rparr>) = example_pressed\<lparr>bodies := [bat0]\<rparr>"
    by (simp add: pitch_timing_def example_pressed_fields)
  have tp: "throw_pitch f (example_pressed\<lparr>bodies := [bat0]\<rparr>) =
      example_pressed\<lparr>pitch_time := False, pitch_count := 9, bodies := [bat0, new_ball f]\<rparr>"
    by (simp add: throw_pitch_def pitch_due_def example_pressed_fields f_def frame_at_fields)
  have tb: "track_bat f (throw_pitch f (pitch_timing f (push_bat f example_pressed))) = g0"
    using sh
    by (simp add: pb pt tp track_bat_def enumerate_eq_zip upt_rec [of 0] upt_rec [of 1] g0_def
        nb numeral_2_eq_2)
  have d: "display Mat4_inverse f example_pressed =
      simulate Mat4_inverse (\<lambda>k. 99 / 100) 100 g0"
    by (simp add: display_def title_screens_def example_pressed_fields lp tu tb)
      (simp add: f_def frame_at_fields)
  have fl: "in_flight g0 ((- 3, - 1, - 7), (2 / 5, 0, 17))"
    using sh
    by (simp add: in_flight_def in_play_def g0_def example_pressed_fields emplace_fields
        f_def bat_center new_ball_frame_at)
  have c: "time_accumulator g0 = 0" "t g0 = 0"
    by (simp_all add: g0_def example_pressed_fields)
  have a: "airborne ((- 3, - 1, - 7), (2 / 5, 0, 17))"
    "airborne (flight_tick ((- 3, - 1, - 7), (2 / 5, 0, 17)))"
    by (simp_all add: flight_tick_def)
  from simulate_in_flight [OF fl c(1) a, of 100 Mat4_inverse] c(2)
  show ?thesis unfolding f_def [symmetric] d by simp
qed

subsection \<open>One judgment per flight\<close>

text \<open>
  With fewer than two bodies a tick changes neither the flags nor the cues. A tick, a
  call of \<open>simulate\<close> and a frame keep \<open>one_flight\<close>, and so does a run of frames in
  which the flight goes on.
\<close>

lemma detect_collisions_alone:
  assumes "length (bodies g) < 2"
  shows "ball_hit (detect_collisions Mat4_inverse g) = ball_hit g \<and>
    events (detect_collisions Mat4_inverse g) = events g"
proof (cases "bodies g")
  case Nil
  then show ?thesis by (simp add: detect_collisions_def)
next
  case (Cons b bs)
  with assms have "bodies g = [b]" by simp
  then show ?thesis
    by (simp add: detect_collisions_def Let_def check_if_colliding_def)
qed

lemma update_state_alone:
  assumes "length (bodies g) < 2"
  shows "ball_hit (update_state Mat4_inverse r d g) = ball_hit g"
    "events (update_state Mat4_inverse r d g) = events g"
    "ball_bounced (update_state Mat4_inverse r d g) = ball_bounced g"
    "length (bodies (update_state Mat4_inverse r d g)) = length (bodies g)"
proof -
  have l: "length (bodies (detect_collisions Mat4_inverse g)) = length (bodies g)"
    by (rule detect_collisions_flight)
  have u: "update_state Mat4_inverse r d g = detect_collisions Mat4_inverse g"
    using assms by (simp add: update_state_def Let_def l)
  show "ball_hit (update_state Mat4_inverse r d g) = ball_hit g"
    "events (update_state Mat4_inverse r d g) = events g"
    "ball_bounced (update_state Mat4_inverse r d g) = ball_bounced g"
    "length (bodies (update_state Mat4_inverse r d g)) = length (bodies g)"
    unfolding u using detect_collisions_alone [OF assms, of Mat4_inverse]
    by (simp_all add: detect_collisions_flight)
qed

lemma judged_camera: "events g' = events g @ replicate n camera_decrease \<Longrightarrow> judged g' = judged g"
  by (simp add: judged_def)

lemma bounce_judged:
  "judged (bounce s) = judged s \<and> ball_bounced (bounce s) = ball_bounced s \<or>
   \<not> ball_bounced s \<and> ball_bounced (bounce s) \<and> (\<exists>c. judged (bounce s) = judged s @ [c])"
  by (auto simp: bounce_def judge_def judged_def Let_def split: prod.split)

lemma update_state_one_flight:
  assumes "one_flight g0 h"
  shows "one_flight g0 (update_state Mat4_inverse r d h)"
proof (cases "ball_hit h")
  case True
  with assms have len: "length (bodies h) = 2" by (simp add: one_flight_def)
  then have l1: "1 < length (bodies h)" by simp
  define s where "s = before_bounce r d h"
  define h' where "h' = update_state Mat4_inverse r d h"
  have same: "ball_bounced s = ball_bounced h" "judged s = judged h"
    by (simp_all add: s_def before_bounce_fields judged_def)
  from update_state_score_events [OF True l1, of Mat4_inverse r d]
  obtain n where "events h' = events (bounce s) @ replicate n camera_decrease"
    unfolding h'_def s_def by blast
  then have j: "judged h' = judged (bounce s)" by (rule judged_camera)
  note p = update_state_flag [OF True l1, of Mat4_inverse r d, folded s_def h'_def]
  note b = bounce_judged [of s, unfolded same]
  have l2: "ball_hit h' \<longrightarrow> length (bodies h') = 2"
  proof
    assume hh: "ball_hit h'"
    have u: "h' = (let g2 = post_hit r d h; g3 = retire g2
      in if length (bodies g3) < 2 then clear_flags g3
         else if stopped (bodies g2 ! 1) then (clear_flags g3)\<lparr>bodies := butlast (bodies g3)\<rparr>
         else g3)"
      unfolding h'_def by (rule update_state_hit [OF True l1])
    have le: "length (bodies (retire (post_hit r d h))) \<le> 2"
      using retire_flight(3) [of "post_hit r d h"] len by (simp add: post_hit_length)
    from hh u have "h' = retire (post_hit r d h) \<and> \<not> length (bodies (retire (post_hit r d h))) < 2"
      by (auto simp: Let_def clear_flags_def split: if_splits)
    with le show "length (bodies h') = 2" by auto
  qed
  from assms True have a: "judged h = judged g0 \<and> ball_bounced h = ball_bounced g0 \<or>
       \<not> ball_bounced g0 \<and> (\<exists>c. judged h = judged g0 @ [c]) \<and> ball_bounced h"
    by (auto simp: one_flight_def)
  have "one_flight g0 h'"
    unfolding one_flight_def using p b j l2 len a by auto
  then show ?thesis by (simp add: h'_def)
next
  case False
  with assms have l: "length (bodies h) < 2" and nb: "\<not> ball_bounced h"
    by (simp_all add: one_flight_def)
  from assms False update_state_alone [OF l, of Mat4_inverse r d]
  show ?thesis by (simp add: one_flight_def judged_def)
qed


lemma one_flight_fields:
  assumes "ball_hit h' = ball_hit h" "ball_bounced h' = ball_bounced h" "events h' = events h"
    "length (bodies h') = length (bodies h)"
  shows "one_flight g0 h' = one_flight g0 h"
  using assms by (simp add: one_flight_def judged_def)

lemma one_flight_tick:
  assumes "one_flight g0 h"
  shows "one_flight g0 (clock_tick ft (step_bodies Mat4_inverse rnd h))"
proof -
  from assms have "one_flight g0 (update_state Mat4_inverse (rnd (steps_taken h)) (dt h) h)"
    by (rule update_state_one_flight)
  moreover have "one_flight g0 (clock_tick ft (step_bodies Mat4_inverse rnd h)) =
      one_flight g0 (update_state Mat4_inverse (rnd (steps_taken h)) (dt h) h)"
    by (rule one_flight_fields) (simp_all add: clock_tick_def step_bodies_def Let_def)
  ultimately show ?thesis by simp
qed

lemma simulate_one_flight:
  assumes "simulate Mat4_inverse rnd ft g = Some g'" "one_flight g0 g"
  shows "one_flight g0 g'"
proof -
  define g1 where "g1 = g\<lparr>time_accumulator := time_accumulator g + min (time_scale g * ft) 0.1\<rparr>"
  from assms(1) obtain g2 where g2:
    "stepping (step_bodies Mat4_inverse rnd) (time_scale g * ft) g1 = Some g2"
    "g' = g2\<lparr>bodies := map (blend_state (time_accumulator g2 / dt g2)) (bodies g2)\<rparr>"
    by (auto simp: simulate_def Let_def g1_def split: option.splits)
  have "one_flight g0 g1 = one_flight g0 g"
    by (rule one_flight_fields) (simp_all add: g1_def)
  with assms(2) have "one_flight g0 g1" by simp
  with stepping_invariant [OF g2(1), of "one_flight g0"] one_flight_tick
  have "one_flight g0 g2" by blast
  moreover have "one_flight g0 g' = one_flight g0 g2"
    by (rule one_flight_fields) (simp_all add: g2(2))
  ultimately show ?thesis by simp
qed

lemma check_events_fields:
  "events (lose_check l n g) = events g" "events (win_check l n g) = events g"
  "events (next_level_check l n p l' g) = events g" "events (target_check k n g) = events g"
  by (simp_all add: lose_check_def win_check_def next_level_check_def target_check_def)

lemma title_screens_flight:
  assumes "title_screens delta g = Some g'"
  shows "ball_hit g' = ball_hit g \<and> ball_bounced g' = ball_bounced g \<and> events g' = events g \<and>
    bodies g' = bodies g"
proof -
  define Q where "Q h = (\<lambda>g::game. ball_hit g = ball_hit h \<and> ball_bounced g = ball_bounced h \<and>
    events g = events h \<and> bodies g = bodies h)" for h :: game
  have tick: "\<And>ft h g. Q h g \<Longrightarrow> Q h (clock_tick ft ((\<lambda>g. g) g))"
    by (simp add: Q_def clock_tick_def)
  have loop: "\<And>g g'. title_balls_loop delta g = Some g' \<Longrightarrow> Q g g'"
  proof -
    fix g g' assume a: "title_balls_loop delta g = Some g'"
    define g1 where "g1 = g\<lparr>time_accumulator := time_accumulator g + min (time_scale g * delta) 0.1\<rparr>"
    have s: "stepping (\<lambda>g. g) (time_scale g * delta) g1 = Some g'"
      using a by (simp add: title_balls_loop_def Let_def g1_def)
    have "Q g g1" by (simp add: g1_def Q_def)
    with stepping_invariant [OF s, of "Q g"] tick show "Q g g'" by blast
  qed
  have "Q g g'"
  proof (cases "current_game_state g = not_started")
    case True
    with assms obtain g1 where g1: "title_balls_loop delta g = Some g1"
      "(if current_game_state g1 = game_won then title_balls_loop delta g1 else Some g1) = Some g'"
      by (auto simp: title_screens_def split: option.splits)
    from loop [OF g1(1)] have q1: "Q g g1" .
    show ?thesis
    proof (cases "current_game_state g1 = game_won")
      case True
      with g1(2) have "title_balls_loop delta g1 = Some g'" by simp
      from loop [OF this] q1 show ?thesis by (simp add: Q_def)
    next
      case False
      with g1(2) q1 show ?thesis by simp
    qed
  next
    case False
    show ?thesis
    proof (cases "current_game_state g = game_won")
      case True
      with False assms have "title_balls_loop delta g = Some g'" by (simp add: title_screens_def)
      then show ?thesis by (rule loop)
    next
      case w: False
      with False assms have "g' = g" by (simp add: title_screens_def)
      then show ?thesis by (simp add: Q_def)
    qed
  qed
  then show ?thesis by (simp add: Q_def)
qed

lemma display_one_flight:
  assumes "display Mat4_inverse f g = Some g'" "ball_hit g" "length (bodies g) = 2"
  shows "one_flight g g'"
proof -
  from assms(1) obtain g1 where g1: "title_screens (animation_delta_time f) g = Some g1"
    and s: "simulate Mat4_inverse (random_tick f) (animation_delta_time f)
      (track_bat f (throw_pitch f (pitch_timing f (push_bat f
         (target_update (level_progress g1)))))) = Some g'"
    by (auto simp: display_def split: option.splits)
  define g2 where "g2 = target_update (level_progress g1)"
  define g3 where "g3 = track_bat f (throw_pitch f (pitch_timing f (push_bat f g2)))"
  from title_screens_flight [OF g1]
  have 2: "ball_hit g2 = ball_hit g" "ball_bounced g2 = ball_bounced g" "events g2 = events g"
    "bodies g2 = bodies g"
    by (simp_all add: g2_def target_update_def level_progress_def check_flight_fields
        check_events_fields)
  have 3: "ball_hit g3 = ball_hit g" "ball_bounced g3 = ball_bounced g" "events g3 = events g"
    "length (bodies g3) = length (bodies g)"
    using 2 assms(3)
    by (simp_all add: g3_def track_bat_def throw_pitch_def pitch_timing_def push_bat_def
        pitch_due_def)
  have "one_flight g g3 = one_flight g g"
    using 3 by (rule one_flight_fields)
  moreover have "one_flight g g" using assms(2,3) by (simp add: one_flight_def)
  ultimately have "one_flight g g3" by simp
  moreover from s have "simulate Mat4_inverse (random_tick f) (animation_delta_time f) g3 = Some g'"
    by (simp only: g3_def g2_def)
  ultimately show ?thesis by (rule simulate_one_flight [rotated])
qed

lemma one_flight_trans:
  assumes "one_flight g g1" "ball_hit g1" "one_flight g1 g'"
  shows "one_flight g g'"
  using assms by (auto simp: one_flight_def)

lemma play_one_flight:
  "flight_goes_on Mat4_inverse fs g \<Longrightarrow>
   \<exists>g'. play Mat4_inverse fs g = Some g' \<and> ball_hit g' \<and> one_flight g g'"
proof (induction fs arbitrary: g)
  case Nil
  then show ?case by (simp add: one_flight_def)
next
  case (Cons f fs)
  from Cons.prems obtain g1 where g1: "display Mat4_inverse f g = Some g1"
    "flight_goes_on Mat4_inverse fs g1" and h: "ball_hit g" "length (bodies g) = 2"
    by (auto split: option.splits)
  from display_one_flight [OF g1(1) h] have 1: "one_flight g g1" .
  from g1(2) have h1: "ball_hit g1" by (cases fs) simp_all
  from Cons.IH [OF g1(2)] obtain g' where g': "play Mat4_inverse fs g1 = Some g'"
    "ball_hit g'" "one_flight g1 g'" by blast
  from one_flight_trans [OF 1 h1 g'(3)] g1(1) g'(1,2) show ?case by simp
qed

lemma in_flight_goes_on:
  assumes "1 / 10 \<le> d"
  shows "in_flight g s \<Longrightarrow> time_accumulator g = 0 \<Longrightarrow> sky n s \<Longrightarrow>
    flight_goes_on Mat4_inverse (frames_from a d n) g"
proof (induction n arbitrary: g s a)
  case 0
  then show ?case by (auto simp: in_flight_def)
next
  case (Suc n)
  from Suc.prems(3) have a: "airborne s" "airborne (flight_tick s)"
    and k: "sky n (flight_tick (flight_tick s))" by simp_all
  from display_flight [OF Suc.prems(1,2) a assms, of Mat4_inverse a]
  obtain g1 where g1: "display Mat4_inverse (frame_at a d) g = Some g1"
    "in_flight g1 (flight_tick (flight_tick s))" "time_accumulator g1 = 0"
    by blast
  from Suc.IH [OF g1(2,3) k, of "a + d"] g1(1) Suc.prems(1)
  show ?case by (auto simp: in_flight_def)
qed

subsection \<open>Bounce, home run and settling\<close>

text \<open>
  Claim C3. Take a tick of \<open>update_state\<close> with a hit ball as the second body, let \<open>s\<close>
  be the state when the test of line 2529 is reached, with the ball at \<open>(x, y, z)\<close> and
  its velocity \<open>(vx, vy, vz)\<close>, and let \<open>g'\<close> be the state after the tick. If the ball is
  below \<open>-9.7\<close> and falling and has not bounced yet, \<open>ball_bounced\<close> is set and the
  bounce is judged: when \<open>|x| < 150\<close> and \<open>|z| > 160 - |x|\<close> the score grows by one and
  the home run cue is played, otherwise the score stays and the other cue is played. On
  every bounce the velocity becomes \<open>(0.6 vx, -0.6 vy, 0.6 vz)\<close> and the angular
  velocity is halved; without a bounce nothing changes, the flag included. The score of
  the tick is the score after the bounce, and the tick adds only camera requests to the
  cues.

  Once per flight: after the tick, either the ball is still hit and \<open>ball_bounced\<close> is as
  the bounce block left it, or the flight has ended: both flags are cleared and a body
  has left the list. So the flag, once set, stays set in every later tick of the flight,
  and a tick that starts with the flag set leaves the score alone. In every reachable
  state the flag is set only while a hit ball is in play, so each flight starts with the
  flag cleared. Over the frames of a run in which the same ball stays in flight
  (\<open>flight_goes_on\<close>), a flight that has bounced is not judged again and keeps the flag,
  and a flight that has not bounced is judged at most once: either no cue of a judgment
  is added and the flag is still cleared, or one cue is added and the flag is set. A
  bounce at \<open>(0, 161)\<close> is a home run, at \<open>(0, 159)\<close> and at \<open>(151, 200)\<close> it is not.
\<close>

theorem bounce_and_home_run:
  assumes "ball_hit g" and "1 < length (bodies g)" and "s = before_bounce r d g"
    and "linear_velocity (bodies s ! 1) = (vx, vy, vz)" and "center (bodies s ! 1) = (x, y, z)"
    and "g' = update_state Mat4_inverse r d g"
  shows
   "(y < - 9.7 \<and> vy < 0 \<and> \<not> ball_bounced g \<and> is_home_run x z \<longrightarrow>
       ball_bounced (bounce s) \<and> game_score (bounce s) = game_score g + 1 \<and>
       events (bounce s) = events g @ [play_homerun]) \<and>
    (y < - 9.7 \<and> vy < 0 \<and> \<not> ball_bounced g \<and> \<not> is_home_run x z \<longrightarrow>
       ball_bounced (bounce s) \<and> game_score (bounce s) = game_score g \<and>
       events (bounce s) = events g @ [play_no_homerun]) \<and>
    (y < - 9.7 \<and> vy < 0 \<and> ball_bounced g \<longrightarrow>
       ball_bounced (bounce s) \<and> game_score (bounce s) = game_score g \<and>
       events (bounce s) = events g) \<and>
    (y < - 9.7 \<and> vy < 0 \<longrightarrow>
       linear_velocity (bodies (bounce s) ! 1) = (vx * 0.6, vy * - 0.6, vz * 0.6) \<and>
       angular_velocity (bodies (bounce s) ! 1) = angular_velocity (bodies s ! 1) * 0.5) \<and>
    (\<not> (y < - 9.7 \<and> vy < 0) \<longrightarrow> bounce s = s \<and> ball_bounced (bounce s) = ball_bounced g) \<and>
    game_score g' = game_score (bounce s) \<and>
    (\<exists>n. events g' = events (bounce s) @ replicate n camera_decrease) \<and>
    (ball_hit g' \<and> ball_bounced g' = ball_bounced (bounce s) \<or>
     \<not> ball_hit g' \<and> \<not> ball_bounced g' \<and> length (bodies g') < length (bodies g)) \<and>
    (ball_bounced g \<longrightarrow> ball_bounced (bounce s) \<and> game_score g' = game_score g) \<and>
    (reachable Mat4_inverse sphere_points h \<and> ball_bounced h \<longrightarrow>
       ball_hit h \<and> 1 < length (bodies h)) \<and>
    (flight_goes_on Mat4_inverse fs p \<longrightarrow>
       (\<exists>p'. play Mat4_inverse fs p = Some p' \<and> ball_hit p' \<and>
          (ball_bounced p \<longrightarrow> ball_bounced p' \<and> judged p' = judged p) \<and>
          (\<not> ball_bounced p \<longrightarrow>
             \<not> ball_bounced p' \<and> judged p' = judged p \<or>
             ball_bounced p' \<and> (\<exists>c. judged p' = judged p @ [c])))) \<and>
    is_home_run 0 161 \<and> \<not> is_home_run 0 159 \<and> \<not> is_home_run 151 200"
proof -
  have f: "falls_through_floor (bodies s ! 1) = (y < - 9.7 \<and> vy < 0)"
    using assms(4,5) by (simp add: falls_through_floor_def)
  have len: "1 < length (bodies s)" using assms(2,3) by (simp add: before_bounce_fields)
  have same: "ball_bounced s = ball_bounced g" "game_score s = game_score g" "events s = events g"
    using assms(3) by (simp_all add: before_bounce_fields)
  note b = bounce_score_events [OF assms(5), unfolded f same]
  note d = bounce_dampens [OF len assms(4), unfolded f]
  note u = update_state_score_events [OF assms(1,2), of Mat4_inverse r d, folded assms(3) assms(6)]
  note p = update_state_flag [OF assms(1,2), of Mat4_inverse r d, folded assms(3) assms(6)]
  have k: "ball_bounced g \<longrightarrow> ball_bounced (bounce s) \<and> game_score g' = game_score g"
    using b(3,4) u same by (cases "y < - 9.7 \<and> vy < 0") auto
  have n: "\<not> (y < - 9.7 \<and> vy < 0) \<longrightarrow> ball_bounced (bounce s) = ball_bounced g"
    using b(4) same by auto
  have i: "reachable Mat4_inverse sphere_points h \<and> ball_bounced h \<longrightarrow>
       ball_hit h \<and> 1 < length (bodies h)"
    using reachable_flight_ok [of Mat4_inverse sphere_points h] by (auto simp: flight_ok_def)
  have h: "is_home_run 0 161 \<and> \<not> is_home_run 0 159 \<and> \<not> is_home_run 151 200"
    by (simp add: is_home_run_def)
  have q: "flight_goes_on Mat4_inverse fs p \<longrightarrow>
       (\<exists>p'. play Mat4_inverse fs p = Some p' \<and> ball_hit p' \<and>
          (ball_bounced p \<longrightarrow> ball_bounced p' \<and> judged p' = judged p) \<and>
          (\<not> ball_bounced p \<longrightarrow>
             \<not> ball_bounced p' \<and> judged p' = judged p \<or>
             ball_bounced p' \<and> (\<exists>c. judged p' = judged p @ [c])))"
  proof
    assume "flight_goes_on Mat4_inverse fs p"
    from play_one_flight [OF this]
    obtain p' where p': "play Mat4_inverse fs p = Some p'" "ball_hit p'" "one_flight p p'"
      by blast
    from p'(2,3) have "(ball_bounced p \<longrightarrow> ball_bounced p' \<and> judged p' = judged p) \<and>
          (\<not> ball_bounced p \<longrightarrow>
             \<not> ball_bounced p' \<and> judged p' = judged p \<or>
             ball_bounced p' \<and> (\<exists>c. judged p' = judged p @ [c]))"
      by (auto simp: one_flight_def)
    with p'(1,2) show "\<exists>p'. play Mat4_inverse fs p = Some p' \<and> ball_hit p' \<and>
          (ball_bounced p \<longrightarrow> ball_bounced p' \<and> judged p' = judged p) \<and>
          (\<not> ball_bounced p \<longrightarrow>
             \<not> ball_bounced p' \<and> judged p' = judged p \<or>
             ball_bounced p' \<and> (\<exists>c. judged p' = judged p @ [c]))"
      by blast
  qed
  show ?thesis
    using b d u p k n i h q by blast
qed

theorem bounce_and_home_run_witness:
  "game_score (update_state (\<lambda>m. m) 0 (1 / 20) example_flight) = 1 \<and>
   events (bounce (before_bounce 0 (1 / 20) example_flight)) = [play_homerun] \<and>
   linear_velocity (bodies (bounce (before_bounce 0 (1 / 20) example_flight)) ! 1) =
     (0, 3294 / 1000, - 18 / 10) \<and>
   ball_hit (update_state (\<lambda>m. m) 0 (1 / 20) example_flight) \<and>
   ball_bounced (update_state (\<lambda>m. m) 0 (1 / 20) example_flight) \<and>
   (\<exists>g1 g2. display (\<lambda>m. m) (frame_at 3000 100) example_pressed = Some g1 \<and>
      play (\<lambda>m. m) (frames_from 3100 100 2) g1 = Some g2 \<and> ball_hit g2 \<and>
      (judged g2 = judged g1 \<or> (\<exists>c. judged g2 = judged g1 @ [c])))"
proof -
  have n: "\<not> length (bodies (update_state (\<lambda>m. m) 0 (1 / 20) example_flight)) <
      length (bodies example_flight)"
  proof -
    have "length (bodies (update_state (\<lambda>m. m) 0 (1 / 20) example_flight)) = 2"
      by (simp add: update_state_hit example_flight_fields post_hit_def before_bounce_def
          launch_def gravity_def bounce_def falls_through_floor_def judge_def dampen_def
          come_to_rest_def retire_def stopped_def clear_flags_def Let_def is_home_run_def
          Vec_norm_less example_ball_fields example_bat_fields)
    then show ?thesis by (simp add: example_flight_fields)
  qed
  from display_first_pitch [of "\<lambda>m. m"]
  obtain g1 where g1: "display (\<lambda>m. m) (frame_at 3000 100) example_pressed = Some g1"
    "in_flight g1 (flight_tick (flight_tick ((- 3, - 1, - 7), (2 / 5, 0, 17))))"
    "time_accumulator g1 = 0"
    by blast
  have k: "sky 2 (flight_tick (flight_tick ((- 3, - 1, - 7), (2 / 5, 0, 17))))"
    by (simp add: eval_nat_numeral flight_tick_def)
  have f: "flight_goes_on (\<lambda>m. m) (frames_from 3100 100 2) g1"
    by (rule in_flight_goes_on [OF _ g1(2,3) k]) simp
  note t = bounce_and_home_run [of example_flight "before_bounce 0 (1 / 20) example_flight"
        0 "1 / 20" 0 "- 549 / 100" "- 3" 0 "- 10" "- 161"
        "update_state (\<lambda>m. m) 0 (1 / 20) example_flight" "\<lambda>m. m" "[]" example_flight
        "frames_from 3100 100 2" g1]
  have 1: "game_score (update_state (\<lambda>m. m) 0 (1 / 20) example_flight) = 1 \<and>
   events (bounce (before_bounce 0 (1 / 20) example_flight)) = [play_homerun] \<and>
   linear_velocity (bodies (bounce (before_bounce 0 (1 / 20) example_flight)) ! 1) =
     (0, 3294 / 1000, - 18 / 10) \<and>
   ball_hit (update_state (\<lambda>m. m) 0 (1 / 20) example_flight) \<and>
   ball_bounced (update_state (\<lambda>m. m) 0 (1 / 20) example_flight)"
    using t n
    by (simp add: example_flight_fields before_bounce_def launch_def gravity_def is_home_run_def)
  have 2: "\<exists>g2. play (\<lambda>m. m) (frames_from 3100 100 2) g1 = Some g2 \<and> ball_hit g2 \<and>
      (judged g2 = judged g1 \<or> (\<exists>c. judged g2 = judged g1 @ [c]))"
    using t f
    by (simp add: example_flight_fields before_bounce_def launch_def gravity_def is_home_run_def)
      blast
  from 1 2 g1(1) show ?thesis by blast
qed

text \<open>
  Claim C7. Take a tick of \<open>update_state\<close> with a hit ball, the bodies being the bat
  (within 300 of the origin) and the ball, and let \<open>s\<close> be the state when the test of
  line 2549 is reached. If the speed of the ball is then below 2 and its height below
  \<open>-9.7\<close>, its vertical velocity is set to 0. If, after that, all three components of the
  velocity are below 0.5 in magnitude, the tick clears \<open>ball_hit\<close> and \<open>ball_bounced\<close> and
  removes the ball: the bat alone is left, as before a pitch. The velocity is the one the
  tick itself tests, after its own force model.
\<close>

theorem settling:
  assumes "ball_hit g" and "bodies g = [bat0, ball0]" and "Vec_norm (center bat0) < 300"
    and "s = bounce (before_bounce r d g)"
    and "linear_velocity (bodies s ! 1) = (vx, vy, vz)" and "center (bodies s ! 1) = (x, y, z)"
  shows
   "(Vec_norm (vx, vy, vz) < 2 \<and> y < - 9.7 \<longrightarrow>
       linear_velocity (bodies (post_hit r d g) ! 1) = (vx, 0, vz)) \<and>
    (stopped (bodies (post_hit r d g) ! 1) \<longrightarrow>
       \<not> ball_hit (update_state Mat4_inverse r d g) \<and>
       \<not> ball_bounced (update_state Mat4_inverse r d g) \<and>
       bodies (update_state Mat4_inverse r d g) = [bat0])"
proof -
  have len: "1 < length (bodies g)" using assms(2) by simp
  have len_s: "length (bodies s) = 2"
    using assms(2,4) by (simp add: bounce_length before_bounce_fields)
  have bat_s: "bodies s ! 0 = bat0"
    using assms(2,4) by (simp add: bounce_bat before_bounce_def)
  define ball3 where "ball3 = come_to_rest (bodies s ! 1)"
  have ph: "bodies (post_hit r d g) = [bat0, ball3]"
  proof -
    have "bodies (post_hit r d g) = (bodies s)[1 := ball3]"
      by (simp add: post_hit_def Let_def assms(4) ball3_def del: One_nat_def)
    moreover obtain b1 b2 where "bodies s = [b1, b2]"
      using len_s by (cases "bodies s"; cases "tl (bodies s)") auto
    ultimately show ?thesis using bat_s by simp
  qed
  have rest: "Vec_norm (vx, vy, vz) < 2 \<and> y < - 9.7 \<longrightarrow> linear_velocity ball3 = (vx, 0, vz)"
    using assms(5,6) by (simp add: ball3_def come_to_rest_def)
  have hit: "ball_hit (post_hit r d g)"
    using assms(1) by (simp add: post_hit_score_events bounce_ball_hit before_bounce_fields)
  have ret: "bodies (retire (post_hit r d g)) = [bat0] \<or> bodies (retire (post_hit r d g)) = [bat0, ball3]"
    using hit assms(3) by (simp add: retire_def Let_def ph)
  have "stopped ball3 \<longrightarrow>
       \<not> ball_hit (update_state Mat4_inverse r d g) \<and>
       \<not> ball_bounced (update_state Mat4_inverse r d g) \<and>
       bodies (update_state Mat4_inverse r d g) = [bat0]"
    using ret by (auto simp: update_state_hit [OF assms(1) len] Let_def ph clear_flags_def)
  with rest ph show ?thesis by simp
qed

theorem settling_witness:
  "linear_velocity (bodies (post_hit 0 (1 / 20) example_rolling) ! 1) = (6 / 100, 0, - 6 / 100) \<and>
   \<not> ball_hit (update_state (\<lambda>m. m) 0 (1 / 20) example_rolling) \<and>
   \<not> ball_bounced (update_state (\<lambda>m. m) 0 (1 / 20) example_rolling) \<and>
   bodies (update_state (\<lambda>m. m) 0 (1 / 20) example_rolling) = [example_bat]"
proof -
  have s: "bodies (bounce (before_bounce 0 (1 / 20) example_rolling)) ! 1 =
     example_ball\<lparr>center := (0, - 10, - 50), linear_velocity := (6 / 100, 414 / 1000, - 6 / 100),
                  angular_velocity := 0\<rparr>"
    by (simp add: example_rolling_fields before_bounce_def launch_def gravity_def bounce_def
        falls_through_floor_def judge_def dampen_def Let_def example_ball_fields)
  have n: "Vec_norm (6 / 100, 414 / 1000, - 6 / 100) < 2"
    by (simp add: Vec_norm_less)
  have p: "bodies (post_hit 0 (1 / 20) example_rolling) ! 1 =
     example_ball\<lparr>center := (0, - 10, - 50), linear_velocity := (6 / 100, 0, - 6 / 100),
                  angular_velocity := 0\<rparr>"
    using n s by (simp add: post_hit_def Let_def bounce_length before_bounce_fields
        example_rolling_fields come_to_rest_def)
  have st: "stopped (bodies (post_hit 0 (1 / 20) example_rolling) ! 1)"
    using p by (simp add: stopped_def)
  have nb: "Vec_norm (center example_bat) < 300"
    by (simp add: example_bat_fields Vec_norm_less)
  from settling [OF example_rolling_fields(1) example_rolling_fields(3) nb refl, of 0 "1 / 20"
      "6 / 100" "414 / 1000" "- 6 / 100" 0 "- 10" "- 50" "\<lambda>m. m"] s n st p
  show ?thesis by simp
qed



subsection \<open>Levels\<close>

lemma to_number_digits:
  "to_number ''1'' = Some 1" "to_number ''2'' = Some 2" "to_number ''3'' = Some 3"
  "to_number ''4'' = Some 4"
  by (simp_all add: to_number_def)

lemma loose_eq_levels:
  "loose_eq v (Str ''1'') \<longleftrightarrow> v = Str ''1'' \<or> v = Num 1"
  "loose_eq v (Str ''2'') \<longleftrightarrow> v = Str ''2'' \<or> v = Num 2"
  "loose_eq v (Str ''3'') \<longleftrightarrow> v = Str ''3'' \<or> v = Num 3"
  "loose_eq v (Str ''4'') \<longleftrightarrow> v = Str ''4'' \<or> v = Num 4"
  by (cases v; auto simp: to_number_digits)+

lemmas level_simps = game_level_one_def game_level_two_def game_level_three_def
  game_level_four_def loose_eq_levels

lemma lose_check_fields:
  "current_game_level (lose_check l n g) = current_game_level g"
  "game_score (lose_check l n g) = game_score g"
  "pitch_count (lose_check l n g) = pitch_count g"
  "game_target (lose_check l n g) = game_target g"
  "current_game_state (lose_check l n g) =
     (if loose_eq (current_game_level g) l \<and> game_score g < n \<and> pitch_count g = - 1
      then game_over else current_game_state g)"
  by (simp_all add: lose_check_def)

lemma win_check_fields:
  "current_game_level (win_check l n g) = current_game_level g"
  "game_score (win_check l n g) = game_score g"
  "pitch_count (win_check l n g) = pitch_count g"
  "game_target (win_check l n g) = game_target g"
  "current_game_state (win_check l n g) =
     (if loose_eq (current_game_level g) l \<and> n \<le> game_score g \<and> pitch_count g = - 1
      then game_won else current_game_state g)"
  by (simp_all add: win_check_def)

lemma next_level_check_fields:
  "current_game_level (next_level_check l n p l' g) =
     (if loose_eq (current_game_level g) l \<and> n \<le> game_score g \<and> pitch_count g = p
      then l' else current_game_level g)"
  "game_score (next_level_check l n p l' g) =
     (if loose_eq (current_game_level g) l \<and> n \<le> game_score g \<and> pitch_count g = p
      then 0 else game_score g)"
  "pitch_count (next_level_check l n p l' g) =
     (if loose_eq (current_game_level g) l \<and> n \<le> game_score g \<and> pitch_count g = p
      then 10 else pitch_count g)"
  "game_target (next_level_check l n p l' g) = game_target g"
  "current_game_state (next_level_check l n p l' g) = current_game_state g"
  by (simp_all add: next_level_check_def)

lemma check_clock_fields:
  "time_accumulator (lose_check l n g) = time_accumulator g"
  "dt (lose_check l n g) = dt g"
  "time_scale (lose_check l n g) = time_scale g"
  "time_accumulator (win_check l n g) = time_accumulator g"
  "dt (win_check l n g) = dt g"
  "time_scale (win_check l n g) = time_scale g"
  "time_accumulator (next_level_check l n p l' g) = time_accumulator g"
  "dt (next_level_check l n p l' g) = dt g"
  "time_scale (next_level_check l n p l' g) = time_scale g"
  by (simp_all add: lose_check_def win_check_def next_level_check_def)

lemmas check_fields = lose_check_fields win_check_fields next_level_check_fields

lemma level_progress_level:
  "current_game_level (level_progress g) \<noteq> current_game_level g \<longrightarrow>
     (loose_eq (current_game_level g) game_level_one \<and> 3 \<le> game_score g \<and> pitch_count g = - 1 \<and>
      current_game_level (level_progress g) = game_level_two) \<or>
     (loose_eq (current_game_level g) game_level_three \<and> 7 \<le> game_score g \<and> pitch_count g = 0 \<and>
      current_game_level (level_progress g) = game_level_four)"
  by (auto simp: level_progress_def check_fields level_simps)

lemma level_progress_one:
  assumes "loose_eq (current_game_level g) game_level_one" "pitch_count g = - 1"
  shows "game_score g < 3 \<longrightarrow> current_game_state (level_progress g) = game_over \<and>
           current_game_level (level_progress g) = current_game_level g"
    and "3 \<le> game_score g \<longrightarrow> current_game_level (level_progress g) = game_level_two \<and>
           game_score (level_progress g) = 0 \<and> pitch_count (level_progress g) = 10 \<and>
           current_game_state (level_progress g) = current_game_state g"
  using assms
  by (auto simp: level_progress_def check_fields level_simps)

lemma level_progress_won:
  assumes "pitch_count g = - 1"
  shows "loose_eq (current_game_level g) game_level_two \<and> 5 \<le> game_score g \<longrightarrow>
           current_game_state (level_progress g) = game_won \<and>
           current_game_level (level_progress g) = current_game_level g"
    and "loose_eq (current_game_level g) game_level_four \<and> 10 \<le> game_score g \<longrightarrow>
           current_game_state (level_progress g) = game_won \<and>
           current_game_level (level_progress g) = current_game_level g"
  using assms
  by (auto simp: level_progress_def check_fields level_simps)


lemma target_check_fields:
  "current_game_level (target_check l n g) = current_game_level g"
  "game_target (target_check l n g) =
     (if loose_eq (current_game_level g) (Num l) then n else game_target g)"
  "time_accumulator (target_check l n g) = time_accumulator g"
  "dt (target_check l n g) = dt g"
  "time_scale (target_check l n g) = time_scale g"
  by (simp_all add: target_check_def)

lemma level_progress_fields:
  "current_game_level (level_progress g) =
     (if loose_eq (current_game_level g) game_level_one \<and> 3 \<le> game_score g \<and> pitch_count g = - 1
      then game_level_two
      else if loose_eq (current_game_level g) game_level_three \<and> 7 \<le> game_score g \<and>
              pitch_count g = 0
      then game_level_four else current_game_level g)"
  "game_target (level_progress g) = game_target g"
  by (auto simp: level_progress_def check_fields level_simps)

lemma target_update_fields:
  "current_game_level (target_update g) = current_game_level g"
  "current_game_level g = Str ''1'' \<or> current_game_level g = Num 1 \<Longrightarrow>
     game_target (target_update g) = game_target g"
  "current_game_level g = Str ''2'' \<Longrightarrow> game_target (target_update g) = 5"
  by (auto simp: target_update_def target_check_fields to_number_digits to_number_def)

lemma level_ok_progress:
  assumes "level_ok g"
  shows "level_ok (target_update (level_progress g))"
proof -
  define g1 where "g1 = level_progress g"
  from assms have "(current_game_level g1 = Str ''1'' \<or> current_game_level g1 = Num 1) \<and>
      game_target g1 = 3 \<or> current_game_level g1 = Str ''2''"
    by (auto simp: g1_def level_ok_def level_progress_fields level_simps)
  then show ?thesis
    unfolding g1_def [symmetric] level_ok_def
    by (auto simp: target_update_fields)
qed

lemma clock_fields_progress:
  "time_accumulator (target_update (level_progress g)) = time_accumulator g"
  "dt (target_update (level_progress g)) = dt g"
  "time_scale (target_update (level_progress g)) = time_scale g"
  by (simp_all add: target_update_def target_check_fields level_progress_def check_clock_fields)

lemma bodies_in_play_fields:
  "current_game_level (track_bat f (throw_pitch f (pitch_timing f (push_bat f g)))) =
     current_game_level g"
  "game_target (track_bat f (throw_pitch f (pitch_timing f (push_bat f g)))) = game_target g"
  "time_accumulator (track_bat f (throw_pitch f (pitch_timing f (push_bat f g)))) =
     time_accumulator g"
  "dt (track_bat f (throw_pitch f (pitch_timing f (push_bat f g)))) = dt g"
  "time_scale (track_bat f (throw_pitch f (pitch_timing f (push_bat f g)))) = time_scale g"
  by (simp_all add: track_bat_def throw_pitch_def pitch_timing_def push_bat_def)

lemma title_balls_loop_returns:
  assumes "clock_ok g" "0 \<le> delta"
  shows "\<exists>g2. title_balls_loop delta g = Some g2 \<and> clock_ok g2 \<and> same_rules g g2"
proof -
  from assms have acc: "0 \<le> time_accumulator g" "time_accumulator g < dt g"
    and ft: "0 \<le> time_scale g * delta" and dt: "dt g = 1 / 20" and ts: "time_scale g = 1"
    by (simp_all add: clock_ok_def)
  from title_balls_loop_general [OF acc ft]
  obtain g2 where g2: "title_balls_loop delta g = Some g2" "0 \<le> time_accumulator g2"
    "time_accumulator g2 < dt g2" "same_rules g g2"
    by blast
  from g2(4) have "dt g2 = dt g" "time_scale g2 = time_scale g"
    by (simp_all add: same_rules_def)
  with dt ts have "dt g2 = 1 / 20" "time_scale g2 = 1" by (simp_all only:)
  with g2(2,3) have "clock_ok g2" by (simp add: clock_ok_def)
  with g2(1,4) show ?thesis by blast
qed

lemma title_screens_returns:
  assumes "clock_ok g" "0 \<le> delta"
  shows "\<exists>g1. title_screens delta g = Some g1 \<and> clock_ok g1 \<and> same_rules g g1"
proof (cases "current_game_state g = not_started")
  case True
  from title_balls_loop_returns [OF assms]
  obtain g2 where g2: "title_balls_loop delta g = Some g2" "clock_ok g2" "same_rules g g2"
    by blast
  from g2(3) True have "current_game_state g2 \<noteq> game_won" by (simp add: same_rules_def)
  with True g2 show ?thesis by (simp add: title_screens_def)
next
  case False
  show ?thesis
  proof (cases "current_game_state g = game_won")
    case True
    from title_balls_loop_returns [OF assms]
    obtain g2 where g2: "title_balls_loop delta g = Some g2" "clock_ok g2" "same_rules g g2"
      by blast
    with True False show ?thesis by (simp add: title_screens_def)
  next
    case nw: False
    with False assms show ?thesis by (simp add: title_screens_def same_refl)
  qed
qed

lemma display_returns:
  assumes "clock_ok g" "level_ok g" "0 \<le> animation_delta_time f"
  shows "\<exists>g'. display Mat4_inverse f g = Some g' \<and> clock_ok g' \<and> level_ok g'"
proof -
  from title_screens_returns [OF assms(1,3)]
  obtain g1 where g1: "title_screens (animation_delta_time f) g = Some g1" "clock_ok g1"
    "same_rules g g1" by blast
  from g1(3) assms(2) have l1: "level_ok g1" by (simp add: level_ok_def same_rules_def)
  define g2 where "g2 = target_update (level_progress g1)"
  define g3 where "g3 = track_bat f (throw_pitch f (pitch_timing f (push_bat f g2)))"
  have l2: "level_ok g2" unfolding g2_def using l1 by (rule level_ok_progress)
  have c2: "clock_ok g2" using g1(2) by (simp add: g2_def clock_ok_def clock_fields_progress)
  have l3: "level_ok g3" using l2 by (simp add: g3_def level_ok_def bodies_in_play_fields)
  have c3: "clock_ok g3" using c2 by (simp add: g3_def clock_ok_def bodies_in_play_fields)
  from simulate_clock_ok [OF c3 assms(3), of Mat4_inverse "random_tick f"]
  obtain g' where g': "simulate Mat4_inverse (random_tick f) (animation_delta_time f) g3 = Some g'"
    "clock_ok g'" "same_rules g3 g'" by blast
  from g'(3) l3 have "level_ok g'" by (simp add: level_ok_def same_rules_def)
  moreover have "display Mat4_inverse f g = Some g'"
    using g1(1) g'(1) by (simp add: display_def g2_def g3_def)
  ultimately show ?thesis using g'(2) by blast
qed

lemma reachable_ok:
  "reachable Mat4_inverse sphere_points g \<Longrightarrow> clock_ok g \<and> level_ok g"
proof (induction rule: reachable.induct)
  case constructed
  show ?case by (simp add: clock_ok_def level_ok_def initial_def game_level_one_def)
next
  case (start_pressed g)
  then show ?case by (simp add: clock_ok_def level_ok_def start_game_def)
next
  case (restart_pressed g)
  then show ?case by (simp add: clock_ok_def level_ok_def restart_game_def)
next
  case (home_run_pressed g)
  then show ?case by (simp add: clock_ok_def level_ok_def home_run_key_def)
next
  case (frame_drawn g f g')
  from display_returns [of g f Mat4_inverse] frame_drawn show ?case by auto
qed

lemma display_reachable:
  assumes "reachable Mat4_inverse sphere_points g" "0 \<le> animation_delta_time f"
  shows "\<exists>g'. display Mat4_inverse f g = Some g' \<and> reachable Mat4_inverse sphere_points g'"
proof -
  from reachable_ok [OF assms(1)] display_returns [of g f Mat4_inverse] assms(2)
  obtain g' where "display Mat4_inverse f g = Some g'" by blast
  with assms show ?thesis by (blast intro: reachable.frame_drawn)
qed

lemma simulate_reachable:
  assumes "reachable Mat4_inverse sphere_points g" "0 \<le> frame_time"
  shows "\<exists>g'. simulate Mat4_inverse rnd frame_time g = Some g' \<and>
           steps_taken g' \<le> steps_taken g + 2"
  using reachable_ok [OF assms(1)] simulate_clock_ok [of g frame_time Mat4_inverse rnd] assms(2)
  by blast

text \<open>
  Claim C9. In every state that the constructor, the buttons (the restart among them) and
  the frames can reach, the level is level one or level two, and neither level three nor
  level four. On level two, using up the pitches with a score of at least 5 sets the
  phase to won and leaves the level. The level progression changes the level in two ways
  only: from level one to level two, and from level three, with a pitch count of exactly
  0, to level four; the second is never enabled in a reachable state.
\<close>

theorem only_levels_one_and_two:
  "(reachable Mat4_inverse sphere_points g \<longrightarrow>
      (loose_eq (current_game_level g) game_level_one \<or>
       loose_eq (current_game_level g) game_level_two) \<and>
      \<not> loose_eq (current_game_level g) game_level_three \<and>
      \<not> loose_eq (current_game_level g) game_level_four) \<and>
   (loose_eq (current_game_level g) game_level_two \<and> 5 \<le> game_score g \<and> pitch_count g = - 1 \<longrightarrow>
      current_game_state (level_progress g) = game_won \<and>
      current_game_level (level_progress g) = current_game_level g) \<and>
   (current_game_level (level_progress g) \<noteq> current_game_level g \<longrightarrow>
      (loose_eq (current_game_level g) game_level_one \<and> 3 \<le> game_score g \<and> pitch_count g = - 1 \<and>
       current_game_level (level_progress g) = game_level_two) \<or>
      (loose_eq (current_game_level g) game_level_three \<and> 7 \<le> game_score g \<and> pitch_count g = 0 \<and>
       current_game_level (level_progress g) = game_level_four))"
proof -
  have "reachable Mat4_inverse sphere_points g \<longrightarrow>
      (loose_eq (current_game_level g) game_level_one \<or>
       loose_eq (current_game_level g) game_level_two) \<and>
      \<not> loose_eq (current_game_level g) game_level_three \<and>
      \<not> loose_eq (current_game_level g) game_level_four"
    using reachable_ok [of Mat4_inverse sphere_points g]
    by (auto simp: level_ok_def level_simps)
  moreover have "loose_eq (current_game_level g) game_level_two \<and> 5 \<le> game_score g \<and>
      pitch_count g = - 1 \<longrightarrow>
      current_game_state (level_progress g) = game_won \<and>
      current_game_level (level_progress g) = current_game_level g"
    using level_progress_won(1) [of g] by blast
  ultimately show ?thesis using level_progress_level [of g] by blast
qed

theorem only_levels_one_and_two_witness:
  "\<exists>g'. display (\<lambda>m. m) example_frame (restart_game (initial [])) = Some g' \<and>
      (loose_eq (current_game_level g') game_level_one \<or> loose_eq (current_game_level g') game_level_two)"
proof -
  have "reachable (\<lambda>m. m) [] (restart_game (initial []))"
    by (intro reachable.restart_pressed reachable.constructed)
  moreover have "0 \<le> animation_delta_time example_frame" by (simp add: example_frame_def)
  ultimately obtain g' where g': "display (\<lambda>m. m) example_frame (restart_game (initial [])) = Some g'"
    "reachable (\<lambda>m. m) [] g'" using display_reachable by blast
  with only_levels_one_and_two [of "\<lambda>m. m" "[]" g'] show ?thesis by blast
qed


text \<open>
  Claim C2, as it is stated, fails on level two. Levels three and four are configured
  (their targets are 7 and 10, and level four is where the game is won with ten home
  runs), so level two is not the final configured level; yet with the pitches used up
  (\<open>pitch_count = -1\<close>) and the target of five home runs met, the game does not advance:
  the level, the score and the pitch count stay, and the phase becomes won. No state on
  level two advances.
\<close>

theorem level_two_counterexample:
  "pitch_count example_level_two = - 1 \<and>
   game_target example_level_two \<le> game_score example_level_two \<and>
   loose_eq (current_game_level example_level_two) game_level_two \<and>
   level_ok example_level_two \<and> clock_ok example_level_two \<and>
   current_game_level (level_progress example_level_two) = game_level_two \<and>
   game_score (level_progress example_level_two) = 5 \<and>
   pitch_count (level_progress example_level_two) = - 1 \<and>
   current_game_state (level_progress example_level_two) = game_won \<and>
   game_target (target_update (example_level_two\<lparr>current_game_level := game_level_three\<rparr>)) = 7 \<and>
   game_target (target_update (example_level_two\<lparr>current_game_level := game_level_four\<rparr>)) = 10 \<and>
   current_game_state
     (level_progress (example_level_two\<lparr>current_game_level := game_level_four,
                                          game_score := 10\<rparr>)) = game_won \<and>
   \<not> (\<exists>g. loose_eq (current_game_level g) game_level_two \<and>
          current_game_level (level_progress g) \<noteq> current_game_level g)"
proof -
  have 1: "pitch_count example_level_two = - 1 \<and>
   game_target example_level_two \<le> game_score example_level_two \<and>
   loose_eq (current_game_level example_level_two) game_level_two \<and>
   level_ok example_level_two \<and> clock_ok example_level_two \<and>
   current_game_level (level_progress example_level_two) = game_level_two \<and>
   game_score (level_progress example_level_two) = 5 \<and>
   pitch_count (level_progress example_level_two) = - 1 \<and>
   current_game_state (level_progress example_level_two) = game_won \<and>
   game_target (target_update (example_level_two\<lparr>current_game_level := game_level_three\<rparr>)) = 7 \<and>
   game_target (target_update (example_level_two\<lparr>current_game_level := game_level_four\<rparr>)) = 10 \<and>
   current_game_state
     (level_progress (example_level_two\<lparr>current_game_level := game_level_four,
                                          game_score := 10\<rparr>)) = game_won"
    by (simp add: example_level_two_def start_game_def initial_def level_progress_def check_fields
        level_simps level_ok_def clock_ok_def target_update_def target_check_fields
        to_number_digits)
  have 2: "\<not> (\<exists>g. loose_eq (current_game_level g) game_level_two \<and>
          current_game_level (level_progress g) \<noteq> current_game_level g)"
    by (auto simp: level_progress_fields level_simps)
  from 1 2 show ?thesis by blast
qed

text \<open>
  Claim C2, amended. With the pitches used up (\<open>pitch_count = -1\<close>): on level one a
  score below 3 sets the phase to game over, and a score of at least 3 advances the game
  to level two with the score reset to 0 and the pitch count to 10; on level two a score
  of at least 5, and on level four a score of at least 10, set the phase to won. In every
  reachable state where the pitches are used up and the score meets \<open>game_target\<close>, the
  game advances from level one to level two or, on level two, is won: level two is the
  last level of a game, although two more are configured. The constructor starts level
  one with target 3 and 10 pitches.
\<close>

theorem level_progression:
  "(pitch_count g = - 1 \<and> loose_eq (current_game_level g) game_level_one \<and> game_score g < 3 \<longrightarrow>
      current_game_state (level_progress g) = game_over) \<and>
   (pitch_count g = - 1 \<and> loose_eq (current_game_level g) game_level_one \<and> 3 \<le> game_score g \<longrightarrow>
      current_game_level (level_progress g) = game_level_two \<and>
      game_score (level_progress g) = 0 \<and> pitch_count (level_progress g) = 10 \<and>
      current_game_state (level_progress g) = current_game_state g) \<and>
   (pitch_count g = - 1 \<and> loose_eq (current_game_level g) game_level_two \<and> 5 \<le> game_score g \<longrightarrow>
      current_game_state (level_progress g) = game_won) \<and>
   (pitch_count g = - 1 \<and> loose_eq (current_game_level g) game_level_four \<and> 10 \<le> game_score g \<longrightarrow>
      current_game_state (level_progress g) = game_won) \<and>
   (reachable Mat4_inverse sphere_points g \<and> pitch_count g = - 1 \<and> game_target g \<le> game_score g \<longrightarrow>
      loose_eq (current_game_level g) game_level_one \<and>
        current_game_level (level_progress g) = game_level_two \<and>
        game_score (level_progress g) = 0 \<and> pitch_count (level_progress g) = 10 \<or>
      loose_eq (current_game_level g) game_level_two \<and>
        current_game_state (level_progress g) = game_won) \<and>
   loose_eq (current_game_level (initial sphere_points)) game_level_one \<and>
   game_target (initial sphere_points) = 3 \<and> pitch_count (initial sphere_points) = 10"
proof -
  have r: "reachable Mat4_inverse sphere_points g \<and> pitch_count g = - 1 \<and>
      game_target g \<le> game_score g \<longrightarrow>
      loose_eq (current_game_level g) game_level_one \<and> 3 \<le> game_score g \<or>
      loose_eq (current_game_level g) game_level_two \<and> 5 \<le> game_score g"
    using reachable_ok [of Mat4_inverse sphere_points g]
    by (auto simp: level_ok_def level_simps)
  have i: "loose_eq (current_game_level (initial sphere_points)) game_level_one \<and>
      game_target (initial sphere_points) = 3 \<and> pitch_count (initial sphere_points) = 10"
    by (simp add: initial_def level_simps)
  show ?thesis
    using level_progress_one [of g] level_progress_won [of g] r i by blast
qed

theorem level_progression_witness:
  "current_game_level (level_progress ((initial [])\<lparr>game_score := 3, pitch_count := - 1\<rparr>)) =
     game_level_two \<and>
   game_score (level_progress ((initial [])\<lparr>game_score := 3, pitch_count := - 1\<rparr>)) = 0 \<and>
   pitch_count (level_progress ((initial [])\<lparr>game_score := 3, pitch_count := - 1\<rparr>)) = 10 \<and>
   current_game_state (level_progress ((initial [])\<lparr>game_score := 2, pitch_count := - 1\<rparr>)) =
     game_over"
  using level_progression [of "(initial [])\<lparr>game_score := 3, pitch_count := - 1\<rparr>" "\<lambda>m. m" "[]"]
    level_progression [of "(initial [])\<lparr>game_score := 2, pitch_count := - 1\<rparr>" "\<lambda>m. m" "[]"]
  by (simp add: initial_def level_simps)

subsection \<open>The pitch\<close>

lemma getRandomInt_speed:
  "getRandomInt r 10 18 = k \<longleftrightarrow> of_int (k - 10) / 8 \<le> r \<and> r < of_int (k - 9) / 8"
proof -
  have "getRandomInt r 10 18 = \<lfloor>r * 8\<rfloor> + 10"
    by (simp add: getRandomInt_def)
  moreover have "\<lfloor>r * 8\<rfloor> = k - 10 \<longleftrightarrow> of_int (k - 10) \<le> r * 8 \<and> r * 8 < of_int (k - 10) + 1"
    by (rule floor_eq_iff)
  ultimately show ?thesis by (auto simp: field_simps)
qed

lemma getRandomInt_xy:
  "getRandomInt r (- 2) 3 = j \<longleftrightarrow> of_int (j + 2) / 5 \<le> r \<and> r < of_int (j + 3) / 5"
proof -
  have "getRandomInt r (- 2) 3 = \<lfloor>r * 5\<rfloor> - 2"
    by (simp add: getRandomInt_def)
  moreover have "\<lfloor>r * 5\<rfloor> = j + 2 \<longleftrightarrow> of_int (j + 2) \<le> r * 5 \<and> r * 5 < of_int (j + 2) + 1"
    by (rule floor_eq_iff)
  ultimately show ?thesis by (auto simp: field_simps)
qed

lemma getRandomInt_range:
  assumes "0 \<le> r" "r < 1"
  shows "getRandomInt r 10 18 \<in> {10..<18}" "getRandomInt r (- 2) 3 \<in> {- 2..2}"
proof -
  have "0 \<le> \<lfloor>r * 8\<rfloor>" "\<lfloor>r * 8\<rfloor> < 8" "0 \<le> \<lfloor>r * 5\<rfloor>" "\<lfloor>r * 5\<rfloor> < 5"
    using assms by (simp_all add: floor_less_iff)
  then show "getRandomInt r 10 18 \<in> {10..<18}" "getRandomInt r (- 2) 3 \<in> {- 2..2}"
    by (simp_all add: getRandomInt_def)
qed

lemma new_ball_fields:
  "linear_velocity (new_ball f) =
     (0.4 + of_int (getRandomInt (random_xy f) (- 2) 3) * 0.3, 0,
      of_int (getRandomInt (random_speed f) 10 18))"
  "drawn_location (new_ball f) = Mat_times (pitcher_right_arm f) (Mat4_translation (- 3, - 1, - 7))"
  "center (new_ball f) =
     to3 (Mat_times_vec (Mat_times (pitcher_right_arm f) (Mat4_translation (- 3, - 1, - 7)))
            (0, 0, 0, 1))"
  "shape (new_ball f) = ball_4"
  by (simp_all add: new_ball_def new_Body_def emplace_def Let_def)

subsection \<open>The pitch timer\<close>

text \<open>The pitch timer and its flag through a tick and through a whole frame.\<close>

lemma update_state_pitch_time:
  "pitch_time (update_state Mat4_inverse u d g) =
     (pitch_time g \<or>
      ball_hit (detect_collisions Mat4_inverse g) \<and> 1 < length (bodies g) \<and>
      list_ex (\<lambda>b. Vec_norm (center b) < 300)
        (bodies (post_hit u d (detect_collisions Mat4_inverse g))))"
proof -
  define g1 where "g1 = detect_collisions Mat4_inverse g"
  define g2 where "g2 = (if ball_hit g1 then post_hit u d g1 else g1)"
  define g3 where "g3 = retire g2"
  have 1: "pitch_time g1 = pitch_time g" "length (bodies g1) = length (bodies g)"
    unfolding g1_def by (rule detect_collisions_flight)+
  have 2: "pitch_time g2 = pitch_time g" "ball_hit g2 = ball_hit g1"
    by (simp_all add: g2_def post_hit_bounced 1 post_hit_score_events bounce_ball_hit
        before_bounce_fields)
  have 3: "pitch_time g3 =
      (pitch_time g \<or> ball_hit g1 \<and> list_ex (\<lambda>b. Vec_norm (center b) < 300) (bodies g2))"
    using 2 by (simp add: g3_def retire_def Let_def)
  have u: "update_state Mat4_inverse u d g =
     (if 1 < length (bodies g1)
      then if length (bodies g3) < 2 then clear_flags g3
           else if stopped (bodies g2 ! 1) then (clear_flags g3)\<lparr>bodies := butlast (bodies g3)\<rparr>
           else g3
      else g1)"
    by (simp add: update_state_def Let_def g1_def g2_def g3_def)
  have "pitch_time (update_state Mat4_inverse u d g) =
      (if 1 < length (bodies g) then pitch_time g3 else pitch_time g)"
    by (simp add: u 1 clear_flags_def)
  also have "\<dots> = (pitch_time g \<or> ball_hit g1 \<and> 1 < length (bodies g) \<and>
      list_ex (\<lambda>b. Vec_norm (center b) < 300) (bodies (post_hit u d g1)))"
    using 3 by (auto simp: g2_def)
  finally show ?thesis unfolding g1_def .
qed

lemma check_pitch_fields:
  "pitch_timer (lose_check l n g) = pitch_timer g" "pitch_time (lose_check l n g) = pitch_time g"
  "pitch_timer (win_check l n g) = pitch_timer g" "pitch_time (win_check l n g) = pitch_time g"
  "pitch_timer (next_level_check l n p l' g) = pitch_timer g"
  "pitch_time (next_level_check l n p l' g) = pitch_time g"
  "pitch_timer (target_check k n g) = pitch_timer g"
  "pitch_time (target_check k n g) = pitch_time g"
  by (simp_all add: lose_check_def win_check_def next_level_check_def target_check_def)

lemma progress_pitch_fields:
  "pitch_timer (target_update (level_progress g)) = pitch_timer g"
  "pitch_time (target_update (level_progress g)) = pitch_time g"
  "bodies (target_update (level_progress g)) = bodies g"
  by (simp_all add: target_update_def level_progress_def check_pitch_fields check_flight_fields)

lemma title_screens_pitch:
  assumes "title_screens delta g = Some g'"
  shows "pitch_timer g' = pitch_timer g \<and> pitch_time g' = pitch_time g \<and> bodies g' = bodies g"
proof -
  define Q where "Q h = (\<lambda>g::game. pitch_timer g = pitch_timer h \<and> pitch_time g = pitch_time h \<and>
    bodies g = bodies h)" for h :: game
  have tick: "\<And>ft h g. Q h g \<Longrightarrow> Q h (clock_tick ft ((\<lambda>g. g) g))"
    by (simp add: Q_def clock_tick_def)
  have loop: "\<And>g g'. title_balls_loop delta g = Some g' \<Longrightarrow> Q g g'"
  proof -
    fix g g' assume a: "title_balls_loop delta g = Some g'"
    define g1 where "g1 = g\<lparr>time_accumulator := time_accumulator g + min (time_scale g * delta) 0.1\<rparr>"
    have s: "stepping (\<lambda>g. g) (time_scale g * delta) g1 = Some g'"
      using a by (simp add: title_balls_loop_def Let_def g1_def)
    have "Q g g1" by (simp add: g1_def Q_def)
    with stepping_invariant [OF s, of "Q g"] tick show "Q g g'" by blast
  qed
  have "Q g g'"
  proof (cases "current_game_state g = not_started")
    case True
    with assms obtain g1 where g1: "title_balls_loop delta g = Some g1"
      "(if current_game_state g1 = game_won then title_balls_loop delta g1 else Some g1) = Some g'"
      by (auto simp: title_screens_def split: option.splits)
    from loop [OF g1(1)] have q1: "Q g g1" .
    show ?thesis
    proof (cases "current_game_state g1 = game_won")
      case True
      with g1(2) have "title_balls_loop delta g1 = Some g'" by simp
      from loop [OF this] q1 show ?thesis by (simp add: Q_def)
    next
      case False
      with g1(2) q1 show ?thesis by simp
    qed
  next
    case False
    show ?thesis
    proof (cases "current_game_state g = game_won")
      case True
      with False assms have "title_balls_loop delta g = Some g'" by (simp add: title_screens_def)
      then show ?thesis by (rule loop)
    next
      case w: False
      with False assms have "g' = g" by (simp add: title_screens_def)
      then show ?thesis by (simp add: Q_def)
    qed
  qed
  then show ?thesis by (simp add: Q_def)
qed

lemma simulate_pitch_timer:
  assumes "simulate Mat4_inverse rnd ft g = Some g'"
  shows "pitch_timer g' = pitch_timer g"
proof -
  define g1 where "g1 = g\<lparr>time_accumulator := time_accumulator g + min (time_scale g * ft) 0.1\<rparr>"
  from assms obtain g2 where g2:
    "stepping (step_bodies Mat4_inverse rnd) (time_scale g * ft) g1 = Some g2"
    "g' = g2\<lparr>bodies := map (blend_state (time_accumulator g2 / dt g2)) (bodies g2)\<rparr>"
    by (auto simp: simulate_def Let_def g1_def split: option.splits)
  have tick: "\<And>h. pitch_timer h = pitch_timer g \<Longrightarrow>
      pitch_timer (clock_tick (time_scale g * ft) (step_bodies Mat4_inverse rnd h)) = pitch_timer g"
  proof -
    fix h :: game assume "pitch_timer h = pitch_timer g"
    with same_step_bodies [of h Mat4_inverse rnd]
    show "pitch_timer (clock_tick (time_scale g * ft) (step_bodies Mat4_inverse rnd h)) =
        pitch_timer g"
      by (simp add: same_rules_def clock_tick_def)
  qed
  have "pitch_timer g1 = pitch_timer g" by (simp add: g1_def)
  with stepping_invariant [OF g2(1), of "\<lambda>h::game. pitch_timer h = pitch_timer g"] tick
  have "pitch_timer g2 = pitch_timer g" by blast
  then show ?thesis by (simp add: g2(2))
qed

lemma display_pitch_timer:
  assumes "display Mat4_inverse f g = Some g'"
  shows "pitch_timer g' =
    (if pitch_time g \<and> length (bodies g) < 2 then animation_time f / 1000 else pitch_timer g)"
proof -
  from assms obtain g1 where g1: "title_screens (animation_delta_time f) g = Some g1"
    and s: "simulate Mat4_inverse (random_tick f) (animation_delta_time f)
      (track_bat f (throw_pitch f (pitch_timing f (push_bat f
         (target_update (level_progress g1)))))) = Some g'"
    by (auto simp: display_def split: option.splits)
  define g2 where "g2 = target_update (level_progress g1)"
  from title_screens_pitch [OF g1]
  have 2: "pitch_timer g2 = pitch_timer g" "pitch_time g2 = pitch_time g" "bodies g2 = bodies g"
    by (simp_all add: g2_def progress_pitch_fields)
  have "pitch_timer (track_bat f (throw_pitch f (pitch_timing f (push_bat f g2)))) =
    (if pitch_time g \<and> length (bodies g) < 2 then animation_time f / 1000 else pitch_timer g)"
    using 2 by (auto simp: track_bat_def throw_pitch_def pitch_timing_def push_bat_def)
  with simulate_pitch_timer [OF s [folded g2_def]] show ?thesis by simp
qed

lemma pitch_due_in_frame:
  "pitch_due f (pitch_timing f (push_bat f g)) \<longleftrightarrow>
     length (bodies g) < 2 \<and> \<not> pitch_time g \<and> pitch_timer g + 2 < animation_time f / 1000 \<and>
     - 1 < pitch_count g \<and> current_game_state g = started"
  by (auto simp: pitch_due_def pitch_timing_def push_bat_def)

text \<open>The states of a run of frames from a reachable state are reachable.\<close>

lemma play_reachable:
  "reachable Mat4_inverse sphere_points g \<Longrightarrow> 0 \<le> d \<Longrightarrow>
   play Mat4_inverse (frames_from a d n) g = Some g' \<Longrightarrow>
   reachable Mat4_inverse sphere_points g'"
proof (induction n arbitrary: g a)
  case 0
  then show ?case by simp
next
  case (Suc n)
  from Suc.prems(3) obtain g1 where g1: "display Mat4_inverse (frame_at a d) g = Some g1"
    "play Mat4_inverse (frames_from (a + d) d n) g1 = Some g'"
    by (auto split: option.splits)
  have "reachable Mat4_inverse sphere_points g1"
    by (rule reachable.frame_drawn [OF Suc.prems(1) _ g1(1)]) (simp add: frame_at_fields Suc.prems(2))
  from Suc.IH [OF this Suc.prems(2) g1(2)] show ?case .
qed

text \<open>
  Claim C6, as it is stated, fails in a run of the game. The start button and the home
  run key are pressed, so the ball counts as hit as soon as it is thrown. The frame at
  3 s throws the first pitch (the pitch count goes from 10 to 9) and the ball flies out.
  After 43 more frames of 100 ms it has left the scene: no ball is active, the game is
  started, nine pitches are left, and 4.4 seconds have passed since the pitch, on the
  simulated clock \<open>t\<close> as on the clock of the animation. Yet the next frame, at 7.4 s,
  throws nothing: it sets the pitch timer to 7.4. The delay does not run from the pitch.

  Nineteen frames later the frame at 9.4 s, exactly two seconds after the timer was set,
  throws nothing either; the pitch is due in the frame at 9.5 s. Two seconds are not
  enough, it takes more.

  When the frames after 7.4 s come every 16 ms instead, the simulation still advances by
  a tenth of a second per frame: after 20 frames two simulated seconds have passed since
  the timer was set, but 0.32 s of the animation, and the next frame throws nothing. The
  seconds are not simulated ones. The states in which a frame throws nothing are
  reachable: the run starts from the constructor.
\<close>

theorem pitch_timer_counterexample:
  "\<exists>g1 g2 g3 g4 g5 g6 g7.
     bodies example_pressed = [] \<and> pitch_count example_pressed = 10 \<and> t example_pressed = 0 \<and>
     display (\<lambda>m. m) (frame_at 3000 100) example_pressed = Some g1 \<and>
       length (bodies g1) = 2 \<and> pitch_count g1 = 9 \<and>
     play (\<lambda>m. m) (frames_from 3100 100 43) g1 = Some g2 \<and>
       length (bodies g2) = 1 \<and> pitch_count g2 = 9 \<and> current_game_state g2 = started \<and>
       t g2 = 44 / 10 \<and> reachable (\<lambda>m. m) [] g2 \<and>
     display (\<lambda>m. m) (frame_at 7400 100) g2 = Some g3 \<and>
       length (bodies g3) = 1 \<and> pitch_count g3 = 9 \<and> current_game_state g3 = started \<and>
       pitch_timer g3 = 74 / 10 \<and>
     play (\<lambda>m. m) (frames_from 7500 100 19) g3 = Some g4 \<and>
       length (bodies g4) = 1 \<and> pitch_count g4 = 9 \<and> current_game_state g4 = started \<and>
       reachable (\<lambda>m. m) [] g4 \<and>
       animation_time (frame_at 9400 100) / 1000 = pitch_timer g4 + 2 \<and>
     display (\<lambda>m. m) (frame_at 9400 100) g4 = Some g5 \<and>
       length (bodies g5) = 1 \<and> pitch_count g5 = 9 \<and>
       pitch_due (frame_at 9500 100) g5 \<and>
     play (\<lambda>m. m) (frames_from 7416 16 20) g3 = Some g6 \<and>
       length (bodies g6) = 1 \<and> pitch_count g6 = 9 \<and> current_game_state g6 = started \<and>
       t g6 = t g3 + 2 \<and> reachable (\<lambda>m. m) [] g6 \<and>
     display (\<lambda>m. m) (frame_at 7736 16) g6 = Some g7 \<and>
       length (bodies g7) = 1 \<and> pitch_count g7 = 9"
proof -
  define s2 where "s2 = flight_tick (flight_tick ((- 3, - 1, - 7), (2 / 5, 0, 17)))"
  from display_first_pitch [of "\<lambda>m. m"]
  obtain g1 where g1: "display (\<lambda>m. m) (frame_at 3000 100) example_pressed = Some g1"
    "in_flight g1 s2" "time_accumulator g1 = 0" "t g1 = 1 / 10"
    unfolding s2_def by blast
  have k: "sky 42 s2" unfolding s2_def by (rule sky_42)
  have o: "out_of_range (fly 42 s2)" unfolding s2_def by (rule fly_42)
  from play_flight [OF _ g1(2,3) k, of 100 "\<lambda>m. m" 3100]
  obtain h where h: "play (\<lambda>m. m) (frames_from 3100 100 42) g1 = Some h"
    "in_flight h (fly 42 s2)" "time_accumulator h = 0" "t h = t g1 + real 42 / 10"
    by auto
  from display_retire [OF h(2,3) o, of 100 "\<lambda>m. m" 7300]
  obtain g2 where g2: "display (\<lambda>m. m) (frame_at 7300 100) h = Some g2"
    "waiting g2 True 0" "time_accumulator g2 = 0" "t g2 = t h + 1 / 10"
    by auto
  have play_snoc: "\<And>n a gs ge. play (\<lambda>m. m) (frames_from a 100 n) gs = Some ge \<Longrightarrow>
      play (\<lambda>m. m) (frames_from a 100 (Suc n)) gs =
        display (\<lambda>m. m) (frame_at (a + 100 * real n) 100) ge"
  proof -
    fix n a gs ge
    show "play (\<lambda>m. m) (frames_from a 100 n) gs = Some ge \<Longrightarrow>
      play (\<lambda>m. m) (frames_from a 100 (Suc n)) gs =
        display (\<lambda>m. m) (frame_at (a + 100 * real n) 100) ge"
    proof (induction n arbitrary: a gs)
      case 0
      then show ?case by (simp split: option.splits)
    next
      case (Suc n)
      from Suc.prems obtain gm where gm: "display (\<lambda>m. m) (frame_at a 100) gs = Some gm"
        "play (\<lambda>m. m) (frames_from (a + 100) 100 n) gm = Some ge"
        by (auto split: option.splits)
      from Suc.IH [OF gm(2)] gm(1) show ?case by (simp add: algebra_simps)
    qed
  qed
  from play_snoc [OF h(1)] g2(1)
  have p2: "play (\<lambda>m. m) (frames_from 3100 100 43) g1 = Some g2" by simp
  have t2: "t g2 = 44 / 10" using g2(4) h(4) g1(4) by simp
  from display_waiting [OF g2(2,3), of 100 7400 "\<lambda>m. m"]
  obtain g3 where g3: "display (\<lambda>m. m) (frame_at 7400 100) g2 = Some g3"
    "waiting g3 False (74 / 10)" "time_accumulator g3 = 0" "t g3 = t g2 + 1 / 10"
    by auto
  from play_waiting [OF _ g3(2,3), of 100 7500 19 "\<lambda>m. m"]
  obtain g4 where g4: "play (\<lambda>m. m) (frames_from 7500 100 19) g3 = Some g4"
    "waiting g4 False (74 / 10)" "time_accumulator g4 = 0"
    by auto
  from display_waiting [OF g4(2,3), of 100 9400 "\<lambda>m. m"]
  obtain g5 where g5: "display (\<lambda>m. m) (frame_at 9400 100) g4 = Some g5"
    "waiting g5 False (74 / 10)"
    by auto
  from play_waiting [OF _ g3(2,3), of 16 7416 20 "\<lambda>m. m"]
  obtain g6 where g6: "play (\<lambda>m. m) (frames_from 7416 16 20) g3 = Some g6"
    "waiting g6 False (74 / 10)" "time_accumulator g6 = 0" "t g6 = t g3 + real 20 / 10"
    by auto
  from display_waiting [OF g6(2,3), of 16 7736 "\<lambda>m. m"]
  obtain g7 where g7: "display (\<lambda>m. m) (frame_at 7736 16) g6 = Some g7"
    "waiting g7 False (74 / 10)"
    by auto
  have due: "pitch_due (frame_at 9500 100) g5"
    using waiting_fields [OF g5(2)] by (simp add: pitch_due_def frame_at_fields)
  have tm: "animation_time (frame_at 9400 100) / 1000 = pitch_timer g4 + 2"
    using waiting_fields [OF g4(2)] by (simp add: frame_at_fields)
  have t6: "t g6 = t g3 + 2" using g6(4) by simp
  have r0: "reachable (\<lambda>m. m) [] example_pressed"
    unfolding example_pressed_def
    by (intro reachable.home_run_pressed reachable.start_pressed reachable.constructed)
  have r1: "reachable (\<lambda>m. m) [] g1"
    by (rule reachable.frame_drawn [OF r0 _ g1(1)]) (simp add: frame_at_fields)
  have r2: "reachable (\<lambda>m. m) [] g2"
    by (rule play_reachable [OF r1 _ p2]) simp
  have r3: "reachable (\<lambda>m. m) [] g3"
    by (rule reachable.frame_drawn [OF r2 _ g3(1)]) (simp add: frame_at_fields)
  have r4: "reachable (\<lambda>m. m) [] g4"
    by (rule play_reachable [OF r3 _ g4(1)]) simp
  have r6: "reachable (\<lambda>m. m) [] g6"
    by (rule play_reachable [OF r3 _ g6(1)]) simp
  show ?thesis
    using g1(1) in_flight_fields(1,2) [OF g1(2)] p2 waiting_fields(1-3) [OF g2(2)] t2
      g3(1) waiting_fields(1-4) [OF g3(2)] g4(1) waiting_fields(1-3) [OF g4(2)] tm
      g5(1) waiting_fields(1,2) [OF g5(2)] due g6(1) waiting_fields(1-3) [OF g6(2)] t6
      g7(1) waiting_fields(1,2) [OF g7(2)] example_pressed_fields(1,2,7) r2 r4 r6
    by blast
qed

text \<open>
  Claim C6, amended. A ball is spawned exactly when fewer than two bodies are in play,
  more than 2 seconds of the clock of the animation (\<open>animation_time / 1000\<close>) have
  passed since the pitch timer was last set, the pitch count is above \<open>-1\<close> and the game
  is started; the frame that sets the timer does not spawn. The timer is 0 at the start.
  A frame sets it to the clock of the animation when it begins with fewer than two
  bodies and the flag \<open>pitch_time\<close>, and clears the flag; nothing else changes the
  timer, a pitch does not. Only a tick with a hit ball and two bodies raises the flag, so
  a missed ball never restarts the timer. The spawn takes one off the pitch count. With
  \<open>Math.random()\<close> in \<open>[0, 1)\<close>, the forward speed of the ball is an integer of
  \<open>[10, 18)\<close> and its lateral velocity is 0.4 plus 0.3 times an integer from \<open>-2\<close> to
  \<open>2\<close>; each integer is drawn for an interval of random values of the same length (an
  eighth, and a fifth), so the draws are uniform when \<open>Math.random()\<close> is. The ball
  starts at the pose of the pitcher's right arm, translated by \<open>(-3, -1, -7)\<close>.
\<close>

theorem pitch_spawn:
  "bodies (throw_pitch f g) = (if pitch_due f g then bodies g @ [new_ball f] else bodies g) \<and>
   pitch_count (throw_pitch f g) = (if pitch_due f g then pitch_count g - 1 else pitch_count g) \<and>
   pitch_timer (throw_pitch f g) = pitch_timer g \<and>
   pitch_time (throw_pitch f g) = (pitch_time g \<and> \<not> pitch_due f g) \<and>
   (pitch_due f g \<longleftrightarrow>
      length (bodies g) < 2 \<and> pitch_timer g + 2 < animation_time f / 1000 \<and>
      - 1 < pitch_count g \<and> current_game_state g = started) \<and>
   pitch_timer (pitch_timing f g) =
     (if pitch_time g \<and> length (bodies g) < 2 then animation_time f / 1000 else pitch_timer g) \<and>
   pitch_time (pitch_timing f g) = (pitch_time g \<and> \<not> length (bodies g) < 2) \<and>
   (pitch_due f (pitch_timing f (push_bat f g)) \<longleftrightarrow>
      length (bodies g) < 2 \<and> \<not> pitch_time g \<and> pitch_timer g + 2 < animation_time f / 1000 \<and>
      - 1 < pitch_count g \<and> current_game_state g = started) \<and>
   (display Mat4_inverse f g = Some g' \<longrightarrow>
      pitch_timer g' =
        (if pitch_time g \<and> length (bodies g) < 2 then animation_time f / 1000
         else pitch_timer g)) \<and>
   pitch_timer (update_state Mat4_inverse u d g) = pitch_timer g \<and>
   pitch_time (update_state Mat4_inverse u d g) =
     (pitch_time g \<or>
      ball_hit (detect_collisions Mat4_inverse g) \<and> 1 < length (bodies g) \<and>
      list_ex (\<lambda>b. Vec_norm (center b) < 300)
        (bodies (post_hit u d (detect_collisions Mat4_inverse g)))) \<and>
   pitch_timer (initial sphere_points) = 0 \<and> \<not> pitch_time (initial sphere_points) \<and>
   (0 \<le> random_speed f \<and> random_speed f < 1 \<and> 0 \<le> random_xy f \<and> random_xy f < 1 \<longrightarrow>
      (\<exists>speed xy. linear_velocity (new_ball f) = (0.4 + of_int xy * 0.3, 0, of_int speed) \<and>
         speed \<in> {10..<18} \<and> xy \<in> {- 2..2} \<and>
         speed = getRandomInt (random_speed f) 10 18 \<and> xy = getRandomInt (random_xy f) (- 2) 3)) \<and>
   (getRandomInt r 10 18 = k \<longleftrightarrow> of_int (k - 10) / 8 \<le> r \<and> r < of_int (k - 9) / 8) \<and>
   (getRandomInt r (- 2) 3 = j \<longleftrightarrow> of_int (j + 2) / 5 \<le> r \<and> r < of_int (j + 3) / 5) \<and>
   shape (new_ball f) = ball_4 \<and>
   drawn_location (new_ball f) = Mat_times (pitcher_right_arm f) (Mat4_translation (- 3, - 1, - 7)) \<and>
   center (new_ball f) =
     to3 (Mat_times_vec (Mat_times (pitcher_right_arm f) (Mat4_translation (- 3, - 1, - 7)))
            (0, 0, 0, 1))"
proof -
  have 1: "bodies (throw_pitch f g) = (if pitch_due f g then bodies g @ [new_ball f] else bodies g)"
    "pitch_count (throw_pitch f g) = (if pitch_due f g then pitch_count g - 1 else pitch_count g)"
    "pitch_timer (throw_pitch f g) = pitch_timer g"
    "pitch_time (throw_pitch f g) = (pitch_time g \<and> \<not> pitch_due f g)"
    by (simp_all add: throw_pitch_def)
  have 2: "pitch_due f g \<longleftrightarrow>
      length (bodies g) < 2 \<and> pitch_timer g + 2 < animation_time f / 1000 \<and>
      - 1 < pitch_count g \<and> current_game_state g = started"
    by (auto simp: pitch_due_def)
  have 3: "0 \<le> random_speed f \<and> random_speed f < 1 \<and> 0 \<le> random_xy f \<and> random_xy f < 1 \<longrightarrow>
      (\<exists>speed xy. linear_velocity (new_ball f) = (0.4 + of_int xy * 0.3, 0, of_int speed) \<and>
         speed \<in> {10..<18} \<and> xy \<in> {- 2..2} \<and>
         speed = getRandomInt (random_speed f) 10 18 \<and> xy = getRandomInt (random_xy f) (- 2) 3)"
    using getRandomInt_range [of "random_speed f"] getRandomInt_range [of "random_xy f"]
    by (simp add: new_ball_fields(1))
  have 4: "pitch_timer (pitch_timing f g) =
      (if pitch_time g \<and> length (bodies g) < 2 then animation_time f / 1000 else pitch_timer g)"
    "pitch_time (pitch_timing f g) = (pitch_time g \<and> \<not> length (bodies g) < 2)"
    by (auto simp: pitch_timing_def)
  have 5: "display Mat4_inverse f g = Some g' \<longrightarrow>
      pitch_timer g' =
        (if pitch_time g \<and> length (bodies g) < 2 then animation_time f / 1000
         else pitch_timer g)"
    using display_pitch_timer [of Mat4_inverse f g g'] by blast
  have 6: "pitch_timer (update_state Mat4_inverse u d g) = pitch_timer g"
    using same_update_state [of g Mat4_inverse u d] by (simp add: same_rules_def)
  have 7: "pitch_timer (initial sphere_points) = 0 \<and> \<not> pitch_time (initial sphere_points)"
    by (simp add: initial_def)
  show ?thesis
    using 1 2 3 4 5 6 7 pitch_due_in_frame [of f g]
      update_state_pitch_time [of Mat4_inverse u d g]
      getRandomInt_speed [of r k] getRandomInt_xy [of r j] new_ball_fields(2,3,4) [of f]
    by blast
qed

theorem pitch_spawn_witness:
  "\<exists>g'. display (\<lambda>m. m) (frame_at 3000 100) example_pressed = Some g' \<and> pitch_timer g' = 0 \<and>
     pitch_due (frame_at 3000 100)
       (pitch_timing (frame_at 3000 100) (push_bat (frame_at 3000 100) example_pressed)) \<and>
     bodies (throw_pitch (frame_at 3000 100) example_pressed) = [new_ball (frame_at 3000 100)] \<and>
     pitch_count (throw_pitch (frame_at 3000 100) example_pressed) = 9 \<and>
     linear_velocity (new_ball (frame_at 3000 100)) = (2 / 5, 0, 17)"
proof -
  from display_first_pitch [of "\<lambda>m. m"]
  obtain g' where g': "display (\<lambda>m. m) (frame_at 3000 100) example_pressed = Some g'"
    by blast
  have s: "getRandomInt (9 / 10) 10 18 = 17" "getRandomInt (1 / 2) (- 2) 3 = 0"
    by (simp_all add: getRandomInt_def)
  have r: "random_speed (frame_at 3000 100) = 9 / 10" "random_xy (frame_at 3000 100) = 1 / 2"
    by (simp_all add: frame_at_def)
  from pitch_spawn [where f = "frame_at 3000 100" and g = example_pressed and g' = g'
      and Mat4_inverse = "\<lambda>m. m" and r = 0 and k = 10 and j = "- 2" and u = 0 and d = 0
      and sphere_points = "[]"] g' s
  show ?thesis
    by (simp add: example_pressed_fields frame_at_fields r)
qed


end
